theory Spec2Isabelle
  imports Main "HOL-Library.Word"
begin

unbundle bit_operations_syntax

section \<open>Ruby Marshal decoder of rails-compat (rubycore/marshal.py)\<close>

text \<open>
  The decoder is the Python class \<open>Marshal\<close>: an instance holds the input buffer
  \<open>_data\<close>, the read position \<open>_position\<close> and the symbol table \<open>_symbols\<close>.
  Methods mutate the instance; here every method takes the instance and returns the
  updated one together with its result. Every \<open>raise\<close> of the source, and every
  exception the Python operations it uses can raise, is a value of \<open>error\<close>.
\<close>

subsection \<open>Data model\<close>

type_synonym byte = "8 word"

text \<open>A Python \<open>str\<close> is a sequence of Unicode code points.\<close>

type_synonym pystr = "nat list"

text \<open>
  The exceptions of the decoder. The first five are the \<open>RuntimeError\<close>s raised by the
  source, told apart by their raise site:
  \<^item> \<open>UnexpectedEndOfInput\<close>: "Unexpected end of data" (\<open>_read_byte\<close>) and
    "Not enough data" (\<open>_read_bytes\<close>);
  \<^item> \<open>UnsupportedVersion\<close>: "Unsupported Marshal version" (\<open>_load\<close>);
  \<^item> \<open>UnsupportedType\<close>: "Not a managed type" (\<open>_read\<close>);
  \<^item> \<open>UnexpectedType\<close>: "Expecting SYMBOL but got" (object, userdef, usr_marshal);
  \<^item> \<open>InvalidSymbolLink\<close>: "Invalid symbol link" (\<open>_read_symbol_link\<close>).
  \<open>InvalidEncoding\<close> is the \<open>UnicodeDecodeError\<close> of \<open>bytes.decode\<close> and the
  \<open>binascii.Error\<close> of \<open>base64.b64decode\<close>. The last three are raised by Python
  itself: \<open>IndexError\<close> by an index out of range, \<open>TypeError\<close> by an unhashable
  dictionary key, \<open>RecursionError\<close> when the nesting of \<open>_read\<close> passes the
  interpreter's recursion limit.
\<close>

datatype error =
    UnexpectedEndOfInput
  | UnsupportedVersion
  | UnsupportedType int
  | UnexpectedType int
  | InvalidSymbolLink int
  | InvalidEncoding
  | IndexError
  | TypeError
  | RecursionError

type_synonym 'a res = "error + 'a"

datatype RubyType =
    NONE | HASH | ARRAY | SYMBOL | SYMBOL_LINK | IVARS | STRING | INT_tag | BIGNUM
  | NIL | TRUE | FALSE | USR_MARSHAL | EXTENDED | USERDEF | LINK | OBJECT

fun RubyType_value :: "RubyType \<Rightarrow> int" where
  "RubyType_value NONE = 0"
| "RubyType_value HASH = 123"
| "RubyType_value ARRAY = 91"
| "RubyType_value SYMBOL = 58"
| "RubyType_value SYMBOL_LINK = 59"
| "RubyType_value IVARS = 73"
| "RubyType_value STRING = 34"
| "RubyType_value INT_tag = 105"
| "RubyType_value BIGNUM = 108"
| "RubyType_value NIL = 48"
| "RubyType_value TRUE = 84"
| "RubyType_value FALSE = 70"
| "RubyType_value USR_MARSHAL = 85"
| "RubyType_value EXTENDED = 101"
| "RubyType_value USERDEF = 117"
| "RubyType_value LINK = 64"
| "RubyType_value OBJECT = 111"

definition RubyType_members :: "RubyType list" where
  "RubyType_members =
     [NONE, HASH, ARRAY, SYMBOL, SYMBOL_LINK, IVARS, STRING, INT_tag, BIGNUM,
      NIL, TRUE, FALSE, USR_MARSHAL, EXTENDED, USERDEF, LINK, OBJECT]"

text \<open>\<open>RubyType.from_byte\<close>: the first member whose value is the byte, else \<open>None\<close>.\<close>

definition from_byte :: "int \<Rightarrow> RubyType option" where
  "from_byte byte_val = find (\<lambda>ruby_type. RubyType_value ruby_type = byte_val) RubyType_members"

text \<open>
  The values the decoder returns: \<open>None\<close>, \<open>bool\<close>, \<open>int\<close>, \<open>str\<close> (for Ruby strings
  and, with a leading colon, for symbols), \<open>list\<close>, \<open>dict\<close> (kept in insertion order) and
  the dataclass \<open>ObjectWrapper(ruby_type, obj, children)\<close>.
\<close>

datatype pyval =
    PyNone
  | PyBool bool
  | PyInt int
  | PyStr pystr
  | PyList "pyval list"
  | PyDict "(pyval \<times> pyval) list"
  | ObjectWrapper RubyType pyval "pyval list"

record marshal =
  data :: "byte list"
  position :: int
  symbols :: "pystr list"

text \<open>\<open>Marshal.__init__\<close>\<close>

definition Marshal_init :: "byte list \<Rightarrow> marshal" where
  "Marshal_init d = \<lparr>data = d, position = 0, symbols = []\<rparr>"

subsection \<open>Python sequence operations\<close>

text \<open>\<open>xs[i]\<close>: a negative index counts from the end; out of range raises \<open>IndexError\<close>.\<close>

definition py_getitem :: "'a list \<Rightarrow> int \<Rightarrow> 'a res" where
  "py_getitem xs i =
     (if i < - int (length xs) \<or> int (length xs) \<le> i then Inl IndexError
      else Inr (xs ! nat (if i < 0 then i + int (length xs) else i)))"

text \<open>\<open>xs[a:b]\<close>: negative bounds count from the end, then both are clamped to the length.\<close>

definition py_clamp :: "nat \<Rightarrow> int \<Rightarrow> nat" where
  "py_clamp n i = (if i < 0 then nat (max (int n + i) 0) else nat (min i (int n)))"

definition py_slice :: "'a list \<Rightarrow> int \<Rightarrow> int \<Rightarrow> 'a list" where
  "py_slice xs a b =
     (let lo = py_clamp (length xs) a; hi = py_clamp (length xs) b
      in take (hi - lo) (drop lo xs))"

text \<open>
  \<open>bytes.decode('utf-8')\<close> with the strict error handler: shortest-form UTF-8 only, no
  surrogates, nothing above U+10FFFF; \<open>None\<close> stands for \<open>UnicodeDecodeError\<close>.
\<close>

definition utf8_cont :: "nat \<Rightarrow> bool" where
  "utf8_cont b \<longleftrightarrow> 128 \<le> b \<and> b \<le> 191"

fun utf8_decode :: "nat list \<Rightarrow> pystr option" where
  "utf8_decode [] = Some []"
| "utf8_decode (b0 # bs) =
     (if b0 < 128 then map_option ((#) b0) (utf8_decode bs)
      else if 194 \<le> b0 \<and> b0 \<le> 223 then
        (case bs of
           b1 # r \<Rightarrow>
             if utf8_cont b1
             then map_option ((#) ((b0 - 192) * 64 + (b1 - 128))) (utf8_decode r)
             else None
         | _ \<Rightarrow> None)
      else if 224 \<le> b0 \<and> b0 \<le> 239 then
        (case bs of
           b1 # b2 # r \<Rightarrow>
             if (if b0 = 224 then 160 else 128) \<le> b1
                \<and> b1 \<le> (if b0 = 237 then 159 else 191) \<and> utf8_cont b2
             then map_option ((#) ((b0 - 224) * 4096 + (b1 - 128) * 64 + (b2 - 128)))
                    (utf8_decode r)
             else None
         | _ \<Rightarrow> None)
      else if 240 \<le> b0 \<and> b0 \<le> 244 then
        (case bs of
           b1 # b2 # b3 # r \<Rightarrow>
             if (if b0 = 240 then 144 else 128) \<le> b1
                \<and> b1 \<le> (if b0 = 244 then 143 else 191) \<and> utf8_cont b2 \<and> utf8_cont b3
             then map_option
                    ((#) ((b0 - 240) * 262144 + (b1 - 128) * 4096 + (b2 - 128) * 64 + (b3 - 128)))
                    (utf8_decode r)
             else None
         | _ \<Rightarrow> None)
      else None)"

definition decode_utf8 :: "byte list \<Rightarrow> pystr res" where
  "decode_utf8 bs =
     (case utf8_decode (map unat bs) of None \<Rightarrow> Inl InvalidEncoding | Some s \<Rightarrow> Inr s)"

subsection \<open>Byte cursor\<close>

text \<open>\<open>Marshal._read_byte\<close>\<close>

definition read_byte :: "marshal \<Rightarrow> (int \<times> marshal) res" where
  "read_byte self =
     (if position self \<ge> int (length (data self)) then Inl UnexpectedEndOfInput
      else case py_getitem (data self) (position self) of
             Inl e \<Rightarrow> Inl e
           | Inr b \<Rightarrow>
               (let byte_val = uint b
                in Inr (if byte_val < 128 then byte_val else byte_val - 256,
                        self\<lparr>position := position self + 1\<rparr>)))"

text \<open>\<open>Marshal._read_bytes\<close>\<close>

definition read_bytes :: "int \<Rightarrow> marshal \<Rightarrow> (byte list \<times> marshal) res" where
  "read_bytes count self =
     (if position self + count > int (length (data self)) then Inl UnexpectedEndOfInput
      else Inr (py_slice (data self) (position self) (position self + count),
                self\<lparr>position := position self + count\<rparr>))"

subsection \<open>Integer codec\<close>

text \<open>
  The two loops of \<open>Marshal._read_int\<close>; \<open>k\<close> iterations are left, \<open>i\<close> is the loop
  variable and \<open>x\<close> the accumulator.
\<close>

fun read_int_pos :: "nat \<Rightarrow> nat \<Rightarrow> int \<Rightarrow> marshal \<Rightarrow> (int \<times> marshal) res" where
  "read_int_pos 0 i x self = Inr (x, self)"
| "read_int_pos (Suc k) i x self =
     (case read_byte self of
        Inl e \<Rightarrow> Inl e
      | Inr (byte_val, self') \<Rightarrow>
          (let unsigned_byte = (if byte_val \<ge> 0 then byte_val else byte_val + 256)
           in read_int_pos k (Suc i) (x OR push_bit (8 * i) unsigned_byte) self'))"

fun read_int_neg :: "nat \<Rightarrow> nat \<Rightarrow> int \<Rightarrow> marshal \<Rightarrow> (int \<times> marshal) res" where
  "read_int_neg 0 i x self = Inr (x, self)"
| "read_int_neg (Suc k) i x self =
     (let a = NOT (push_bit (8 * i) (255 :: int))
      in case read_byte self of
           Inl e \<Rightarrow> Inl e
         | Inr (b, self') \<Rightarrow>
             read_int_neg k (Suc i) ((x AND a) OR push_bit (8 * i) b) self')"

text \<open>\<open>Marshal._read_int\<close>\<close>

definition read_int :: "marshal \<Rightarrow> (int \<times> marshal) res" where
  "read_int self =
     (case read_byte self of
        Inl e \<Rightarrow> Inl e
      | Inr (c, self') \<Rightarrow>
          if c = 0 then Inr (0, self')
          else if c > 4 then Inr (c - 5, self')
          else if c < - 4 then Inr (c + 5, self')
          else if c > 0 then read_int_pos (nat c) 0 0 self'
          else read_int_neg (nat (- c)) 0 (- 1) self')"

subsection \<open>Dictionaries\<close>

text \<open>
  The decoder builds a \<open>dict\<close> by \<open>result[key] = value\<close>. A key must be hashable:
  \<open>None\<close>, \<open>bool\<close>, \<open>int\<close> and \<open>str\<close> are; \<open>list\<close>, \<open>dict\<close> and the dataclass
  \<open>ObjectWrapper\<close> (which defines \<open>__eq__\<close> and is not frozen) are not. Keys are compared
  with \<open>==\<close>, under which \<open>True == 1\<close> and \<open>False == 0\<close>. An existing key keeps its
  place and gets the new value; a new key goes to the end.
\<close>

fun hashable :: "pyval \<Rightarrow> bool" where
  "hashable PyNone = True"
| "hashable (PyBool b) = True"
| "hashable (PyInt i) = True"
| "hashable (PyStr s) = True"
| "hashable (PyList xs) = False"
| "hashable (PyDict m) = False"
| "hashable (ObjectWrapper t obj children) = False"

fun key_canon :: "pyval \<Rightarrow> pyval" where
  "key_canon (PyBool b) = PyInt (if b then 1 else 0)"
| "key_canon v = v"

definition py_eq :: "pyval \<Rightarrow> pyval \<Rightarrow> bool" where
  "py_eq a b \<longleftrightarrow> key_canon a = key_canon b"

fun dict_setitem :: "(pyval \<times> pyval) list \<Rightarrow> pyval \<Rightarrow> pyval \<Rightarrow> (pyval \<times> pyval) list" where
  "dict_setitem [] key v = [(key, v)]"
| "dict_setitem ((k', v') # m) key v =
     (if py_eq k' key then (k', v) # m else (k', v') # dict_setitem m key v)"

subsection \<open>Productions\<close>

text \<open>
  The productions call \<open>self._read()\<close> for nested values. Each production below takes
  that method as its first argument \<open>rd\<close>; \<open>read\<close> ties the knot.
\<close>

type_synonym reader = "marshal \<Rightarrow> (pyval \<times> marshal) res"

text \<open>\<open>Marshal._read_symbol\<close>\<close>

definition read_symbol :: "marshal \<Rightarrow> (pystr \<times> marshal) res" where
  "read_symbol self =
     (case read_int self of
        Inl e \<Rightarrow> Inl e
      | Inr (size_n, s1) \<Rightarrow>
          if size_n = 0 then
            (let symbol = [58] in Inr (symbol, s1\<lparr>symbols := symbols s1 @ [symbol]\<rparr>))
          else
            (case read_bytes size_n s1 of
               Inl e \<Rightarrow> Inl e
             | Inr (data_bytes, s2) \<Rightarrow>
                 (case decode_utf8 data_bytes of
                    Inl e \<Rightarrow> Inl e
                  | Inr text \<Rightarrow>
                      (let symbol = 58 # text
                       in Inr (symbol, s2\<lparr>symbols := symbols s2 @ [symbol]\<rparr>)))))"

text \<open>\<open>Marshal._read_symbol_link\<close>\<close>

definition read_symbol_link :: "marshal \<Rightarrow> (pystr \<times> marshal) res" where
  "read_symbol_link self =
     (case read_int self of
        Inl e \<Rightarrow> Inl e
      | Inr (link, s1) \<Rightarrow>
          if link \<ge> int (length (symbols s1)) then Inl (InvalidSymbolLink link)
          else (case py_getitem (symbols s1) link of
                  Inl e \<Rightarrow> Inl e
                | Inr symbol \<Rightarrow> Inr (symbol, s1)))"

text \<open>
  The class-name slot of \<open>_read_object\<close>, \<open>_read_userdef\<close> and \<open>_read_usr_marshal\<close>
  (the same lines in each): a type byte, then a symbol or a symbol link.
\<close>

definition read_class_symbol :: "marshal \<Rightarrow> (pystr \<times> marshal) res" where
  "read_class_symbol self =
     (case read_byte self of
        Inl e \<Rightarrow> Inl e
      | Inr (type_byte, s1) \<Rightarrow>
          (let symbol_type = from_byte type_byte
           in if symbol_type = Some SYMBOL then read_symbol s1
              else if symbol_type = Some SYMBOL_LINK then read_symbol_link s1
              else Inl (UnexpectedType type_byte)))"

text \<open>\<open>for _ in range(size): result.append(self._read())\<close>\<close>

fun read_array_loop :: "reader \<Rightarrow> nat \<Rightarrow> pyval list \<Rightarrow> marshal \<Rightarrow> (pyval list \<times> marshal) res" where
  "read_array_loop rd 0 result self = Inr (result, self)"
| "read_array_loop rd (Suc k) result self =
     (case rd self of
        Inl e \<Rightarrow> Inl e
      | Inr (v, s1) \<Rightarrow> read_array_loop rd k (result @ [v]) s1)"

text \<open>\<open>Marshal._read_array\<close>; \<open>range(size)\<close> is empty for \<open>size \<le> 0\<close>.\<close>

definition read_array :: "reader \<Rightarrow> marshal \<Rightarrow> (pyval \<times> marshal) res" where
  "read_array rd self =
     (case read_int self of
        Inl e \<Rightarrow> Inl e
      | Inr (size_n, s1) \<Rightarrow>
          (case read_array_loop rd (nat size_n) [] s1 of
             Inl e \<Rightarrow> Inl e
           | Inr (result, s2) \<Rightarrow> Inr (PyList result, s2)))"

text \<open>The loop of \<open>_read_hash\<close>: key, value, then \<open>result[key] = value\<close>.\<close>

fun read_hash_loop ::
  "reader \<Rightarrow> nat \<Rightarrow> (pyval \<times> pyval) list \<Rightarrow> marshal \<Rightarrow> ((pyval \<times> pyval) list \<times> marshal) res" where
  "read_hash_loop rd 0 result self = Inr (result, self)"
| "read_hash_loop rd (Suc k) result self =
     (case rd self of
        Inl e \<Rightarrow> Inl e
      | Inr (key, s1) \<Rightarrow>
          (case rd s1 of
             Inl e \<Rightarrow> Inl e
           | Inr (v, s2) \<Rightarrow>
               if hashable key then read_hash_loop rd k (dict_setitem result key v) s2
               else Inl TypeError))"

text \<open>\<open>Marshal._read_hash\<close>\<close>

definition read_hash :: "reader \<Rightarrow> marshal \<Rightarrow> (pyval \<times> marshal) res" where
  "read_hash rd self =
     (case read_int self of
        Inl e \<Rightarrow> Inl e
      | Inr (size_n, s1) \<Rightarrow>
          (case read_hash_loop rd (nat size_n) [] s1 of
             Inl e \<Rightarrow> Inl e
           | Inr (result, s2) \<Rightarrow> Inr (PyDict result, s2)))"

text \<open>
  The loop of \<open>_read_object\<close> (two \<open>wrapper.add(self._read())\<close> per round) and of
  \<open>_read_ivar\<close> (two \<open>attachments.append\<close> per round).
\<close>

fun read_pairs_loop :: "reader \<Rightarrow> nat \<Rightarrow> pyval list \<Rightarrow> marshal \<Rightarrow> (pyval list \<times> marshal) res" where
  "read_pairs_loop rd 0 acc self = Inr (acc, self)"
| "read_pairs_loop rd (Suc k) acc self =
     (case rd self of
        Inl e \<Rightarrow> Inl e
      | Inr (key, s1) \<Rightarrow>
          (case rd s1 of
             Inl e \<Rightarrow> Inl e
           | Inr (v, s2) \<Rightarrow> read_pairs_loop rd k (acc @ [key, v]) s2))"

text \<open>\<open>Marshal._read_ivar\<close>\<close>

definition read_ivar :: "reader \<Rightarrow> marshal \<Rightarrow> (pyval \<times> marshal) res" where
  "read_ivar rd self =
     (case rd self of
        Inl e \<Rightarrow> Inl e
      | Inr (result, s1) \<Rightarrow>
          (case read_int s1 of
             Inl e \<Rightarrow> Inl e
           | Inr (size_n, s2) \<Rightarrow>
               (case read_pairs_loop rd (nat size_n) [] s2 of
                  Inl e \<Rightarrow> Inl e
                | Inr (attachments, s3) \<Rightarrow> Inr (result, s3))))"

text \<open>\<open>Marshal._read_object\<close>\<close>

definition read_object :: "reader \<Rightarrow> marshal \<Rightarrow> (pyval \<times> marshal) res" where
  "read_object rd self =
     (case read_class_symbol self of
        Inl e \<Rightarrow> Inl e
      | Inr (symbol, s1) \<Rightarrow>
          (case read_int s1 of
             Inl e \<Rightarrow> Inl e
           | Inr (size_n, s2) \<Rightarrow>
               (case read_pairs_loop rd (nat size_n) [] s2 of
                  Inl e \<Rightarrow> Inl e
                | Inr (children, s3) \<Rightarrow>
                    Inr (ObjectWrapper OBJECT (PyStr symbol) children, s3))))"

text \<open>\<open>Marshal._read_link\<close>\<close>

definition read_link :: "marshal \<Rightarrow> (pyval \<times> marshal) res" where
  "read_link self =
     (case read_int self of
        Inl e \<Rightarrow> Inl e
      | Inr (link, s1) \<Rightarrow> Inr (ObjectWrapper LINK (PyInt link) [], s1))"

text \<open>\<open>Marshal._read_userdef\<close>\<close>

definition read_userdef :: "marshal \<Rightarrow> (pyval \<times> marshal) res" where
  "read_userdef self =
     (case read_class_symbol self of
        Inl e \<Rightarrow> Inl e
      | Inr (symbol, s1) \<Rightarrow>
          (case read_int s1 of
             Inl e \<Rightarrow> Inl e
           | Inr (size_n, s2) \<Rightarrow>
               (case read_bytes size_n s2 of
                  Inl e \<Rightarrow> Inl e
                | Inr (data_bytes, s3) \<Rightarrow>
                    (case decode_utf8 data_bytes of
                       Inl e \<Rightarrow> Inl e
                     | Inr text \<Rightarrow>
                         Inr (ObjectWrapper USERDEF (PyStr symbol) [PyStr text], s3)))))"

text \<open>\<open>Marshal._read_extended\<close>\<close>

definition read_extended :: "marshal \<Rightarrow> (pyval \<times> marshal) res" where
  "read_extended self = Inr (ObjectWrapper EXTENDED PyNone [], self)"

text \<open>\<open>Marshal._read_usr_marshal\<close>\<close>

definition read_usr_marshal :: "reader \<Rightarrow> marshal \<Rightarrow> (pyval \<times> marshal) res" where
  "read_usr_marshal rd self =
     (case read_class_symbol self of
        Inl e \<Rightarrow> Inl e
      | Inr (symbol, s1) \<Rightarrow>
          (case rd s1 of
             Inl e \<Rightarrow> Inl e
           | Inr (obj, s2) \<Rightarrow> Inr (ObjectWrapper USR_MARSHAL (PyStr symbol) [obj], s2)))"

text \<open>The loop of \<open>_read_bignum\<close> over \<open>enumerate(data_bytes)\<close>.\<close>

fun bignum_loop :: "nat \<Rightarrow> byte list \<Rightarrow> int \<Rightarrow> int" where
  "bignum_loop i [] result = result"
| "bignum_loop i (byte_val # rest) result =
     (let unsigned_byte = (if uint byte_val \<ge> 0 then uint byte_val else uint byte_val + 256)
      in bignum_loop (Suc i) rest (result + push_bit (i * 8) unsigned_byte))"

text \<open>\<open>Marshal._read_bignum\<close>\<close>

definition read_bignum :: "marshal \<Rightarrow> (int \<times> marshal) res" where
  "read_bignum self =
     (case read_byte self of
        Inl e \<Rightarrow> Inl e
      | Inr (sign_byte, s1) \<Rightarrow>
          (case read_int s1 of
             Inl e \<Rightarrow> Inl e
           | Inr (len, s2) \<Rightarrow>
               (case read_bytes (len * 2) s2 of
                  Inl e \<Rightarrow> Inl e
                | Inr (data_bytes, s3) \<Rightarrow> Inr (bignum_loop 0 data_bytes 0, s3))))"

text \<open>\<open>Marshal._read_string\<close>\<close>

definition read_string :: "marshal \<Rightarrow> (pystr \<times> marshal) res" where
  "read_string self =
     (case read_int self of
        Inl e \<Rightarrow> Inl e
      | Inr (size_n, s1) \<Rightarrow>
          (case read_bytes size_n s1 of
             Inl e \<Rightarrow> Inl e
           | Inr (data_bytes, s2) \<Rightarrow>
               (case decode_utf8 data_bytes of
                  Inl e \<Rightarrow> Inl e
                | Inr text \<Rightarrow> Inr (text, s2))))"

subsection \<open>Dispatch\<close>

text \<open>Lifting the result of a production that returns an \<open>int\<close> or a \<open>str\<close>.\<close>

definition as_val :: "('a \<Rightarrow> pyval) \<Rightarrow> ('a \<times> marshal) res \<Rightarrow> (pyval \<times> marshal) res" where
  "as_val f r = (case r of Inl e \<Rightarrow> Inl e | Inr (x, s) \<Rightarrow> Inr (f x, s))"

text \<open>The \<open>if\<close>/\<open>elif\<close> chain of \<open>Marshal._read\<close>, after the type byte has been mapped.\<close>

fun dispatch :: "reader \<Rightarrow> int \<Rightarrow> RubyType \<Rightarrow> marshal \<Rightarrow> (pyval \<times> marshal) res" where
  "dispatch rd type_byte NIL self = Inr (PyNone, self)"
| "dispatch rd type_byte TRUE self = Inr (PyBool True, self)"
| "dispatch rd type_byte FALSE self = Inr (PyBool False, self)"
| "dispatch rd type_byte INT_tag self = as_val PyInt (read_int self)"
| "dispatch rd type_byte BIGNUM self = as_val PyInt (read_bignum self)"
| "dispatch rd type_byte HASH self = read_hash rd self"
| "dispatch rd type_byte ARRAY self = read_array rd self"
| "dispatch rd type_byte STRING self = as_val PyStr (read_string self)"
| "dispatch rd type_byte IVARS self = read_ivar rd self"
| "dispatch rd type_byte SYMBOL self = as_val PyStr (read_symbol self)"
| "dispatch rd type_byte SYMBOL_LINK self = as_val PyStr (read_symbol_link self)"
| "dispatch rd type_byte USR_MARSHAL self = read_usr_marshal rd self"
| "dispatch rd type_byte EXTENDED self = read_extended self"
| "dispatch rd type_byte USERDEF self = read_userdef self"
| "dispatch rd type_byte LINK self = read_link self"
| "dispatch rd type_byte OBJECT self = read_object rd self"
| "dispatch rd type_byte NONE self = Inl (UnsupportedType type_byte)"

text \<open>
  \<open>Marshal._read\<close>. The source recurses without a bound of its own; the interpreter
  stops it with \<open>RecursionError\<close> at its recursion limit. The first argument is the
  nesting depth still allowed.
\<close>

primrec read :: "nat \<Rightarrow> reader" where
  "read 0 = (\<lambda>self. Inl RecursionError)"
| "read (Suc depth) =
     (\<lambda>self. case read_byte self of
        Inl e \<Rightarrow> Inl e
      | Inr (type_byte, s1) \<Rightarrow>
          (case from_byte type_byte of
             None \<Rightarrow> Inl (UnsupportedType type_byte)
           | Some ruby_type \<Rightarrow> dispatch (read depth) type_byte ruby_type s1))"

subsection \<open>Entry points\<close>

text \<open>\<open>Marshal._load\<close>; the second version byte is read only if the first is 4.\<close>

definition load_impl :: "nat \<Rightarrow> marshal \<Rightarrow> (pyval \<times> marshal) res" where
  "load_impl depth self =
     (case read_byte self of
        Inl e \<Rightarrow> Inl e
      | Inr (major, s1) \<Rightarrow>
          if major = 4 then
            (case read_byte s1 of
               Inl e \<Rightarrow> Inl e
             | Inr (minor, s2) \<Rightarrow>
                 if minor = 8 then read depth s2 else Inl UnsupportedVersion)
          else Inl UnsupportedVersion)"

text \<open>\<open>Marshal.load\<close>: a new instance, then \<open>_load\<close>; the instance is dropped.\<close>

definition load :: "nat \<Rightarrow> byte list \<Rightarrow> pyval res" where
  "load depth d =
     (case load_impl depth (Marshal_init d) of Inl e \<Rightarrow> Inl e | Inr (v, s) \<Rightarrow> Inr v)"

text \<open>
  \<open>Marshal.load_b64\<close>. \<open>base64.b64decode\<close> belongs to the Python library; it is the
  parameter \<open>b64decode\<close>, which gives \<open>None\<close> where the library raises
  \<open>binascii.Error\<close>.
\<close>

definition load_b64 :: "(string \<Rightarrow> byte list option) \<Rightarrow> nat \<Rightarrow> string \<Rightarrow> pyval res" where
  "load_b64 b64decode depth b64_data =
     (case b64decode b64_data of
        None \<Rightarrow> Inl InvalidEncoding
      | Some d \<Rightarrow>
          (case load_impl depth (Marshal_init d) of Inl e \<Rightarrow> Inl e | Inr (v, s) \<Rightarrow> Inr v))"

subsection \<open>The decoder on an object store\<close>

text \<open>
  The same methods once more, with the objects of the Python process made explicit. A
  process that calls \<open>Marshal.load\<close> several times holds the objects of the earlier
  calls. The store holds every \<open>Marshal\<close> instance and every list object created so
  far; an address is an index. An instance keeps \<open>_data\<close> and \<open>_position\<close> as values
  and \<open>_symbols\<close> as the address of a list object, so that two instances that named the
  same list would share it. Each method takes the address \<open>self\<close> and the store, reads
  and writes the attributes of \<open>self\<close> in the store, and returns the store it leaves.
\<close>

record marshal_obj =
  inst_data :: "byte list"
  inst_position :: int
  inst_symbols :: nat

record store =
  instances :: "marshal_obj list"
  lists :: "pystr list list"

type_synonym 'a meth = "nat \<Rightarrow> store \<Rightarrow> ('a \<times> store) res"

text \<open>\<open>self._position = p\<close>\<close>

definition set_position :: "nat \<Rightarrow> int \<Rightarrow> store \<Rightarrow> store" where
  "set_position self p h =
     h\<lparr>instances := (instances h)[self := (instances h ! self)\<lparr>inst_position := p\<rparr>]\<rparr>"

text \<open>The list that \<open>self._symbols\<close> names.\<close>

definition symbols_of :: "nat \<Rightarrow> store \<Rightarrow> pystr list" where
  "symbols_of self h = lists h ! inst_symbols (instances h ! self)"

text \<open>\<open>self._symbols.append(s)\<close>: the list object is changed in place.\<close>

definition symbols_append :: "nat \<Rightarrow> pystr \<Rightarrow> store \<Rightarrow> store" where
  "symbols_append self s h =
     h\<lparr>lists := (lists h)[inst_symbols (instances h ! self) := symbols_of self h @ [s]]\<rparr>"

text \<open>
  \<open>cls(data)\<close> with \<open>Marshal.__init__\<close>: the expression \<open>[]\<close> makes a new list object
  and the instance is a new object; both get the next free address.
\<close>

definition new_Marshal :: "byte list \<Rightarrow> store \<Rightarrow> nat \<times> store" where
  "new_Marshal d h =
     (length (instances h),
      \<lparr>instances = instances h @ [\<lparr>inst_data = d, inst_position = 0, inst_symbols = length (lists h)\<rparr>],
       lists = lists h @ [[]]\<rparr>)"

definition obj_read_byte :: "int meth" where
  "obj_read_byte self h =
     (let me = instances h ! self
      in if inst_position me \<ge> int (length (inst_data me)) then Inl UnexpectedEndOfInput
         else case py_getitem (inst_data me) (inst_position me) of
                Inl e \<Rightarrow> Inl e
              | Inr b \<Rightarrow>
                  (let byte_val = uint b
                   in Inr (if byte_val < 128 then byte_val else byte_val - 256,
                           set_position self (inst_position me + 1) h)))"

definition obj_read_bytes :: "int \<Rightarrow> byte list meth" where
  "obj_read_bytes count self h =
     (let me = instances h ! self
      in if inst_position me + count > int (length (inst_data me)) then Inl UnexpectedEndOfInput
         else Inr (py_slice (inst_data me) (inst_position me) (inst_position me + count),
                   set_position self (inst_position me + count) h))"

fun obj_read_int_pos :: "nat \<Rightarrow> nat \<Rightarrow> int \<Rightarrow> int meth" where
  "obj_read_int_pos 0 i x self h = Inr (x, h)"
| "obj_read_int_pos (Suc k) i x self h =
     (case obj_read_byte self h of
        Inl e \<Rightarrow> Inl e
      | Inr (byte_val, h1) \<Rightarrow>
          (let unsigned_byte = (if byte_val \<ge> 0 then byte_val else byte_val + 256)
           in obj_read_int_pos k (Suc i) (x OR push_bit (8 * i) unsigned_byte) self h1))"

fun obj_read_int_neg :: "nat \<Rightarrow> nat \<Rightarrow> int \<Rightarrow> int meth" where
  "obj_read_int_neg 0 i x self h = Inr (x, h)"
| "obj_read_int_neg (Suc k) i x self h =
     (let a = NOT (push_bit (8 * i) (255 :: int))
      in case obj_read_byte self h of
           Inl e \<Rightarrow> Inl e
         | Inr (b, h1) \<Rightarrow>
             obj_read_int_neg k (Suc i) ((x AND a) OR push_bit (8 * i) b) self h1)"

definition obj_read_int :: "int meth" where
  "obj_read_int self h =
     (case obj_read_byte self h of
        Inl e \<Rightarrow> Inl e
      | Inr (c, h1) \<Rightarrow>
          if c = 0 then Inr (0, h1)
          else if c > 4 then Inr (c - 5, h1)
          else if c < - 4 then Inr (c + 5, h1)
          else if c > 0 then obj_read_int_pos (nat c) 0 0 self h1
          else obj_read_int_neg (nat (- c)) 0 (- 1) self h1)"

definition obj_read_symbol :: "pystr meth" where
  "obj_read_symbol self h =
     (case obj_read_int self h of
        Inl e \<Rightarrow> Inl e
      | Inr (size_n, h1) \<Rightarrow>
          if size_n = 0 then
            (let symbol = [58] in Inr (symbol, symbols_append self symbol h1))
          else
            (case obj_read_bytes size_n self h1 of
               Inl e \<Rightarrow> Inl e
             | Inr (data_bytes, h2) \<Rightarrow>
                 (case decode_utf8 data_bytes of
                    Inl e \<Rightarrow> Inl e
                  | Inr tx \<Rightarrow>
                      (let symbol = 58 # tx
                       in Inr (symbol, symbols_append self symbol h2)))))"

definition obj_read_symbol_link :: "pystr meth" where
  "obj_read_symbol_link self h =
     (case obj_read_int self h of
        Inl e \<Rightarrow> Inl e
      | Inr (link, h1) \<Rightarrow>
          if link \<ge> int (length (symbols_of self h1)) then Inl (InvalidSymbolLink link)
          else (case py_getitem (symbols_of self h1) link of
                  Inl e \<Rightarrow> Inl e
                | Inr symbol \<Rightarrow> Inr (symbol, h1)))"

definition obj_read_class_symbol :: "pystr meth" where
  "obj_read_class_symbol self h =
     (case obj_read_byte self h of
        Inl e \<Rightarrow> Inl e
      | Inr (type_byte, h1) \<Rightarrow>
          (let symbol_type = from_byte type_byte
           in if symbol_type = Some SYMBOL then obj_read_symbol self h1
              else if symbol_type = Some SYMBOL_LINK then obj_read_symbol_link self h1
              else Inl (UnexpectedType type_byte)))"

fun obj_read_array_loop :: "pyval meth \<Rightarrow> nat \<Rightarrow> pyval list \<Rightarrow> pyval list meth" where
  "obj_read_array_loop rd 0 result self h = Inr (result, h)"
| "obj_read_array_loop rd (Suc k) result self h =
     (case rd self h of
        Inl e \<Rightarrow> Inl e
      | Inr (v, h1) \<Rightarrow> obj_read_array_loop rd k (result @ [v]) self h1)"

definition obj_read_array :: "pyval meth \<Rightarrow> pyval meth" where
  "obj_read_array rd self h =
     (case obj_read_int self h of
        Inl e \<Rightarrow> Inl e
      | Inr (size_n, h1) \<Rightarrow>
          (case obj_read_array_loop rd (nat size_n) [] self h1 of
             Inl e \<Rightarrow> Inl e
           | Inr (result, h2) \<Rightarrow> Inr (PyList result, h2)))"

fun obj_read_hash_loop ::
  "pyval meth \<Rightarrow> nat \<Rightarrow> (pyval \<times> pyval) list \<Rightarrow> (pyval \<times> pyval) list meth" where
  "obj_read_hash_loop rd 0 result self h = Inr (result, h)"
| "obj_read_hash_loop rd (Suc k) result self h =
     (case rd self h of
        Inl e \<Rightarrow> Inl e
      | Inr (key, h1) \<Rightarrow>
          (case rd self h1 of
             Inl e \<Rightarrow> Inl e
           | Inr (v, h2) \<Rightarrow>
               if hashable key then obj_read_hash_loop rd k (dict_setitem result key v) self h2
               else Inl TypeError))"

definition obj_read_hash :: "pyval meth \<Rightarrow> pyval meth" where
  "obj_read_hash rd self h =
     (case obj_read_int self h of
        Inl e \<Rightarrow> Inl e
      | Inr (size_n, h1) \<Rightarrow>
          (case obj_read_hash_loop rd (nat size_n) [] self h1 of
             Inl e \<Rightarrow> Inl e
           | Inr (result, h2) \<Rightarrow> Inr (PyDict result, h2)))"

fun obj_read_pairs_loop :: "pyval meth \<Rightarrow> nat \<Rightarrow> pyval list \<Rightarrow> pyval list meth" where
  "obj_read_pairs_loop rd 0 acc self h = Inr (acc, h)"
| "obj_read_pairs_loop rd (Suc k) acc self h =
     (case rd self h of
        Inl e \<Rightarrow> Inl e
      | Inr (key, h1) \<Rightarrow>
          (case rd self h1 of
             Inl e \<Rightarrow> Inl e
           | Inr (v, h2) \<Rightarrow> obj_read_pairs_loop rd k (acc @ [key, v]) self h2))"

definition obj_read_ivar :: "pyval meth \<Rightarrow> pyval meth" where
  "obj_read_ivar rd self h =
     (case rd self h of
        Inl e \<Rightarrow> Inl e
      | Inr (result, h1) \<Rightarrow>
          (case obj_read_int self h1 of
             Inl e \<Rightarrow> Inl e
           | Inr (size_n, h2) \<Rightarrow>
               (case obj_read_pairs_loop rd (nat size_n) [] self h2 of
                  Inl e \<Rightarrow> Inl e
                | Inr (attachments, h3) \<Rightarrow> Inr (result, h3))))"

definition obj_read_object :: "pyval meth \<Rightarrow> pyval meth" where
  "obj_read_object rd self h =
     (case obj_read_class_symbol self h of
        Inl e \<Rightarrow> Inl e
      | Inr (symbol, h1) \<Rightarrow>
          (case obj_read_int self h1 of
             Inl e \<Rightarrow> Inl e
           | Inr (size_n, h2) \<Rightarrow>
               (case obj_read_pairs_loop rd (nat size_n) [] self h2 of
                  Inl e \<Rightarrow> Inl e
                | Inr (children, h3) \<Rightarrow>
                    Inr (ObjectWrapper OBJECT (PyStr symbol) children, h3))))"

definition obj_read_link :: "pyval meth" where
  "obj_read_link self h =
     (case obj_read_int self h of
        Inl e \<Rightarrow> Inl e
      | Inr (link, h1) \<Rightarrow> Inr (ObjectWrapper LINK (PyInt link) [], h1))"

definition obj_read_userdef :: "pyval meth" where
  "obj_read_userdef self h =
     (case obj_read_class_symbol self h of
        Inl e \<Rightarrow> Inl e
      | Inr (symbol, h1) \<Rightarrow>
          (case obj_read_int self h1 of
             Inl e \<Rightarrow> Inl e
           | Inr (size_n, h2) \<Rightarrow>
               (case obj_read_bytes size_n self h2 of
                  Inl e \<Rightarrow> Inl e
                | Inr (data_bytes, h3) \<Rightarrow>
                    (case decode_utf8 data_bytes of
                       Inl e \<Rightarrow> Inl e
                     | Inr tx \<Rightarrow>
                         Inr (ObjectWrapper USERDEF (PyStr symbol) [PyStr tx], h3)))))"

definition obj_read_extended :: "pyval meth" where
  "obj_read_extended self h = Inr (ObjectWrapper EXTENDED PyNone [], h)"

definition obj_read_usr_marshal :: "pyval meth \<Rightarrow> pyval meth" where
  "obj_read_usr_marshal rd self h =
     (case obj_read_class_symbol self h of
        Inl e \<Rightarrow> Inl e
      | Inr (symbol, h1) \<Rightarrow>
          (case rd self h1 of
             Inl e \<Rightarrow> Inl e
           | Inr (obj, h2) \<Rightarrow> Inr (ObjectWrapper USR_MARSHAL (PyStr symbol) [obj], h2)))"

definition obj_read_bignum :: "int meth" where
  "obj_read_bignum self h =
     (case obj_read_byte self h of
        Inl e \<Rightarrow> Inl e
      | Inr (sign_byte, h1) \<Rightarrow>
          (case obj_read_int self h1 of
             Inl e \<Rightarrow> Inl e
           | Inr (len, h2) \<Rightarrow>
               (case obj_read_bytes (len * 2) self h2 of
                  Inl e \<Rightarrow> Inl e
                | Inr (data_bytes, h3) \<Rightarrow> Inr (bignum_loop 0 data_bytes 0, h3))))"

definition obj_read_string :: "pystr meth" where
  "obj_read_string self h =
     (case obj_read_int self h of
        Inl e \<Rightarrow> Inl e
      | Inr (size_n, h1) \<Rightarrow>
          (case obj_read_bytes size_n self h1 of
             Inl e \<Rightarrow> Inl e
           | Inr (data_bytes, h2) \<Rightarrow>
               (case decode_utf8 data_bytes of
                  Inl e \<Rightarrow> Inl e
                | Inr tx \<Rightarrow> Inr (tx, h2))))"

definition obj_as_val :: "('a \<Rightarrow> pyval) \<Rightarrow> ('a \<times> store) res \<Rightarrow> (pyval \<times> store) res" where
  "obj_as_val f r = (case r of Inl e \<Rightarrow> Inl e | Inr (x, h) \<Rightarrow> Inr (f x, h))"

fun obj_dispatch :: "pyval meth \<Rightarrow> int \<Rightarrow> RubyType \<Rightarrow> pyval meth" where
  "obj_dispatch rd type_byte NIL self h = Inr (PyNone, h)"
| "obj_dispatch rd type_byte TRUE self h = Inr (PyBool True, h)"
| "obj_dispatch rd type_byte FALSE self h = Inr (PyBool False, h)"
| "obj_dispatch rd type_byte INT_tag self h = obj_as_val PyInt (obj_read_int self h)"
| "obj_dispatch rd type_byte BIGNUM self h = obj_as_val PyInt (obj_read_bignum self h)"
| "obj_dispatch rd type_byte HASH self h = obj_read_hash rd self h"
| "obj_dispatch rd type_byte ARRAY self h = obj_read_array rd self h"
| "obj_dispatch rd type_byte STRING self h = obj_as_val PyStr (obj_read_string self h)"
| "obj_dispatch rd type_byte IVARS self h = obj_read_ivar rd self h"
| "obj_dispatch rd type_byte SYMBOL self h = obj_as_val PyStr (obj_read_symbol self h)"
| "obj_dispatch rd type_byte SYMBOL_LINK self h = obj_as_val PyStr (obj_read_symbol_link self h)"
| "obj_dispatch rd type_byte USR_MARSHAL self h = obj_read_usr_marshal rd self h"
| "obj_dispatch rd type_byte EXTENDED self h = obj_read_extended self h"
| "obj_dispatch rd type_byte USERDEF self h = obj_read_userdef self h"
| "obj_dispatch rd type_byte LINK self h = obj_read_link self h"
| "obj_dispatch rd type_byte OBJECT self h = obj_read_object rd self h"
| "obj_dispatch rd type_byte NONE self h = Inl (UnsupportedType type_byte)"

primrec obj_read :: "nat \<Rightarrow> pyval meth" where
  "obj_read 0 = (\<lambda>self h. Inl RecursionError)"
| "obj_read (Suc depth) =
     (\<lambda>self h. case obj_read_byte self h of
        Inl e \<Rightarrow> Inl e
      | Inr (type_byte, h1) \<Rightarrow>
          (case from_byte type_byte of
             None \<Rightarrow> Inl (UnsupportedType type_byte)
           | Some ruby_type \<Rightarrow> obj_dispatch (obj_read depth) type_byte ruby_type self h1))"

definition obj_load_impl :: "nat \<Rightarrow> pyval meth" where
  "obj_load_impl depth self h =
     (case obj_read_byte self h of
        Inl e \<Rightarrow> Inl e
      | Inr (major, h1) \<Rightarrow>
          if major = 4 then
            (case obj_read_byte self h1 of
               Inl e \<Rightarrow> Inl e
             | Inr (minor, h2) \<Rightarrow>
                 if minor = 8 then obj_read depth self h2 else Inl UnsupportedVersion)
          else Inl UnsupportedVersion)"

text \<open>\<open>Marshal.load\<close> in a store.\<close>

definition obj_load :: "nat \<Rightarrow> byte list \<Rightarrow> store \<Rightarrow> (pyval \<times> store) res" where
  "obj_load depth d h = (case new_Marshal d h of (self, h0) \<Rightarrow> obj_load_impl depth self h0)"

section \<open>Specification-side notions\<close>

text \<open>The little-endian value of a byte sequence: the sum of \<open>byte\<^sub>i * 256 ^ i\<close>.\<close>

definition le_sum :: "byte list \<Rightarrow> int" where
  "le_sum bs = (\<Sum>i<length bs. uint (bs ! i) * 256 ^ i)"

text \<open>The bytes that follow the cursor.\<close>

definition next_bytes :: "nat \<Rightarrow> marshal \<Rightarrow> byte list" where
  "next_bytes k st = take k (drop (nat (position st)) (data st))"

text \<open>The next \<open>k\<close> values of the stream, decoded in order by \<open>rd\<close>.\<close>

fun read_seq :: "reader \<Rightarrow> nat \<Rightarrow> marshal \<Rightarrow> (pyval list \<times> marshal) res" where
  "read_seq rd 0 st = Inr ([], st)"
| "read_seq rd (Suc k) st =
     (case rd st of
        Inl e \<Rightarrow> Inl e
      | Inr (v, s1) \<Rightarrow>
          (case read_seq rd k s1 of
             Inl e \<Rightarrow> Inl e
           | Inr (vs, s2) \<Rightarrow> Inr (v # vs, s2)))"

text \<open>A flat key, value, key, value, ... sequence as pairs.\<close>

fun pairs :: "'a list \<Rightarrow> ('a \<times> 'a) list" where
  "pairs (a # b # r) = (a, b) # pairs r"
| "pairs r = []"

text \<open>\<open>result[key] = value\<close> over a list of pairs, from the dict \<open>acc\<close>.\<close>

definition dict_of_pairs :: "(pyval \<times> pyval) list \<Rightarrow> (pyval \<times> pyval) list \<Rightarrow> (pyval \<times> pyval) list" where
  "dict_of_pairs acc kvs = foldl (\<lambda>m (key, v). dict_setitem m key v) acc kvs"

text \<open>A dict with every key replaced by its representative under \<open>==\<close>.\<close>

definition canon_keys :: "(pyval \<times> pyval) list \<Rightarrow> (pyval \<times> pyval) list" where
  "canon_keys kvs = map (\<lambda>(key, v). (key_canon key, v)) kvs"

text \<open>The six error kinds of the specification.\<close>

fun defined_kind :: "error \<Rightarrow> bool" where
  "defined_kind UnexpectedEndOfInput = True"
| "defined_kind UnsupportedVersion = True"
| "defined_kind (UnsupportedType b) = True"
| "defined_kind (UnexpectedType b) = True"
| "defined_kind (InvalidSymbolLink i) = True"
| "defined_kind InvalidEncoding = True"
| "defined_kind IndexError = False"
| "defined_kind TypeError = False"
| "defined_kind RecursionError = False"

text \<open>A call ends as the specification allows: a value or one of the six kinds.\<close>

definition surfaces_defined_kind :: "pyval res \<Rightarrow> bool" where
  "surfaces_defined_kind r = (case r of Inl e \<Rightarrow> defined_kind e | Inr v \<Rightarrow> True)"

subsection \<open>Well-formed encodings\<close>

text \<open>
  The grammar of the format as the specification gives it, production by production,
  with the values of the decoder's value model. \<open>encodes syms bs v syms'\<close>: the
  bytes \<open>bs\<close> are one complete encoding of the value \<open>v\<close>, read with the symbol
  table \<open>syms\<close> and leaving the table \<open>syms'\<close>. Every length and count is
  non-negative, every link index is within the table and every hash key is hashable.
\<close>







text \<open>The decoder standing between the bytes \<open>pre\<close> already read and the bytes \<open>post\<close> ahead.\<close>

definition cur :: "byte list \<Rightarrow> byte list \<Rightarrow> pystr list \<Rightarrow> marshal" where
  "cur pre post syms = \<lparr>data = pre @ post, position = int (length pre), symbols = syms\<rparr>"

subsection \<open>Relating the object store to a single instance\<close>

text \<open>
  \<open>view\<close> reads the instance at \<open>self\<close> out of the store as a record, \<open>put\<close> writes
  a record back, and \<open>lift f\<close> is the method \<open>f\<close> of the record model run on the
  instance at \<open>self\<close>, every other object left as it is.
\<close>

definition view :: "nat \<Rightarrow> store \<Rightarrow> marshal" where
  "view self h =
     \<lparr>data = inst_data (instances h ! self), position = inst_position (instances h ! self),
      symbols = symbols_of self h\<rparr>"

definition put :: "nat \<Rightarrow> store \<Rightarrow> marshal \<Rightarrow> store" where
  "put self h st =
     \<lparr>instances = (instances h)[self := \<lparr>inst_data = data st, inst_position = position st,
                                         inst_symbols = inst_symbols (instances h ! self)\<rparr>],
      lists = (lists h)[inst_symbols (instances h ! self) := symbols st]\<rparr>"

definition wf_obj :: "nat \<Rightarrow> store \<Rightarrow> bool" where
  "wf_obj self h \<longleftrightarrow>
     self < length (instances h) \<and> inst_symbols (instances h ! self) < length (lists h)"

definition lift :: "(marshal \<Rightarrow> ('a \<times> marshal) res) \<Rightarrow> 'a meth" where
  "lift f self h =
     (case f (view self h) of Inl e \<Rightarrow> Inl e | Inr (v, st') \<Rightarrow> Inr (v, put self h st'))"

section \<open>Verified properties\<close>

subsection \<open>Bit arithmetic of the integer codec\<close>

lemma or_push_eq_add:
  fixes x :: int
  assumes "0 \<le> x" "x < 2 ^ n"
  shows "x OR push_bit n y = x + push_bit n y"
proof -
  have x: "take_bit n x = x" using assms by (simp add: take_bit_int_eq_self)
  have "\<And>m. \<not> bit x m \<or> \<not> bit (push_bit n y) m"
  proof -
    fix m
    have "bit x m \<Longrightarrow> m < n" using x by (metis bit_take_bit_iff)
    then show "\<not> bit x m \<or> \<not> bit (push_bit n y) m" by (auto simp: bit_push_bit_iff)
  qed
  then show ?thesis by (simp add: disjunctive_add)
qed

lemma neg_step:
  fixes S b :: int
  assumes "0 \<le> S" "S < 2 ^ (8 * i)"
  shows "((S - 2 ^ (8 * i)) AND NOT (push_bit (8 * i) 255)) OR push_bit (8 * i) b
         = S + 2 ^ (8 * i) * (b mod 256) - 2 ^ (8 * Suc i)"
proof -
  have S: "take_bit (8 * i) S = S" using assms by (simp add: take_bit_int_eq_self)
  have bS: "\<And>m. bit S m \<Longrightarrow> m < 8 * i" using S by (metis bit_take_bit_iff)
  have m255: "(255 :: int) = mask 8" by (simp add: mask_eq_exp_minus_1)
  have L: "S - 2 ^ (8 * i) = S OR push_bit (8 * i) (- 1)"
    using or_push_eq_add [OF assms, of "- 1"] by (simp add: push_bit_eq_mult)
  have T: "S + 2 ^ (8 * i) * (b mod 256) < 2 ^ (8 * Suc i)"
  proof -
    have "b mod 256 \<le> 255" by simp
    then have "2 ^ (8 * i) * (b mod 256) \<le> (2 ^ (8 * i) :: int) * 255" by (simp only: mult_left_mono zero_le_power zero_le_numeral)
    moreover have "2 ^ (8 * Suc i) = (256::int) * 2 ^ (8 * i)" by (simp add: power_add)
    ultimately show ?thesis using assms by linarith
  qed
  have R: "S + 2 ^ (8 * i) * (b mod 256) - 2 ^ (8 * Suc i)
         = (S OR push_bit (8 * i) (take_bit 8 b)) OR push_bit (8 * Suc i) (- 1)"
  proof -
    have a: "S OR push_bit (8 * i) (take_bit 8 b) = S + 2 ^ (8 * i) * (b mod 256)"
      using or_push_eq_add [OF assms, of "take_bit 8 b"] by (simp add: push_bit_eq_mult take_bit_eq_mod)
    have "0 \<le> S + 2 ^ (8 * i) * (b mod 256)" using assms by simp
    from or_push_eq_add [OF this T, of "- 1"] a show ?thesis by (simp add: push_bit_eq_mult)
  qed
  have "((S OR push_bit (8 * i) (- 1)) AND NOT (push_bit (8 * i) (mask 8))) OR push_bit (8 * i) b
      = (S OR push_bit (8 * i) (take_bit 8 b)) OR push_bit (8 * Suc i) (- 1)"
    by (rule bit_eqI) (auto simp: bit_simps dest: bS)
  then show ?thesis using L R m255 by simp
qed

lemma le_sum_Nil: "le_sum [] = 0"
  by (simp add: le_sum_def)

lemma le_sum_Cons: "le_sum (b # bs) = uint b + 256 * le_sum bs"
proof -
  have "le_sum (b # bs) = (\<Sum>i<Suc (length bs). uint ((b # bs) ! i) * 256 ^ i)"
    by (simp add: le_sum_def)
  also have "\<dots> = uint b + (\<Sum>i<length bs. uint (bs ! i) * 256 ^ Suc i)"
    by (simp only: sum.lessThan_Suc_shift) simp
  also have "(\<Sum>i<length bs. uint (bs ! i) * 256 ^ Suc i) = 256 * le_sum bs"
    by (simp add: le_sum_def sum_distrib_left mult.assoc mult.left_commute)
  finally show ?thesis .
qed

lemma le_sum_nonneg: "0 \<le> le_sum bs"
  by (simp add: le_sum_def sum_nonneg)

lemma le_sum_less: "le_sum bs < 256 ^ length bs"
proof (induction bs)
  case Nil
  show ?case by (simp add: le_sum_Nil)
next
  case (Cons b bs)
  have "uint b < 256" using uint_bounded [of b] by simp
  with Cons show ?case by (simp add: le_sum_Cons)
qed

lemma signed_unsigned:
  fixes b :: byte
  defines "sb \<equiv> (if uint b < 128 then uint b else uint b - 256)"
  shows "(if sb \<ge> 0 then sb else sb + 256) = uint b" and "sb mod 256 = uint b"
proof -
  have "0 \<le> uint b" "uint b < 256" using uint_bounded [of b] by simp_all
  then show "(if sb \<ge> 0 then sb else sb + 256) = uint b" and "sb mod 256 = uint b"
    by (auto simp: sb_def)
qed

lemma read_byte_at:
  assumes "0 \<le> position st" "position st < int (length (data st))"
  shows "read_byte st =
           Inr (if uint (data st ! nat (position st)) < 128 then uint (data st ! nat (position st))
                else uint (data st ! nat (position st)) - 256,
                st\<lparr>position := position st + 1\<rparr>)"
  using assms by (simp add: read_byte_def py_getitem_def Let_def)

lemma next_bytes_Suc:
  assumes "0 \<le> p" "p + int (Suc k) \<le> int (length xs)"
  shows "take (Suc k) (drop (nat p) xs) = xs ! nat p # take k (drop (nat (p + 1)) xs)"
proof -
  have "nat p < length xs" using assms by linarith
  then have "drop (nat p) xs = xs ! nat p # drop (Suc (nat p)) xs"
    by (simp add: Cons_nth_drop_Suc)
  moreover have "nat (p + 1) = Suc (nat p)" using assms by simp
  ultimately show ?thesis by simp
qed

lemma read_int_pos_value:
  assumes "0 \<le> position st" "position st + int k \<le> int (length (data st))"
    and "0 \<le> x" "x < 2 ^ (8 * i)"
  shows "read_int_pos k i x st =
           Inr (x + 2 ^ (8 * i) * le_sum (take k (drop (nat (position st)) (data st))),
                st\<lparr>position := position st + int k\<rparr>)"
  using assms
proof (induction k arbitrary: i x st)
  case 0
  then show ?case by (simp add: le_sum_Nil)
next
  case (Suc k)
  let ?b = "data st ! nat (position st)"
  let ?st = "st\<lparr>position := position st + 1\<rparr>"
  let ?x = "x + 2 ^ (8 * i) * uint ?b"
  have rb: "read_byte st = Inr (if uint ?b < 128 then uint ?b else uint ?b - 256, ?st)"
    using Suc.prems by (intro read_byte_at) simp_all
  have step: "x OR push_bit (8 * i) (uint ?b) = ?x"
    using or_push_eq_add [OF Suc.prems(3,4)] by (simp add: push_bit_eq_mult)
  have ub: "uint ?b < 256" "0 \<le> uint ?b" using uint_bounded [of ?b] by simp_all
  have "2 ^ (8 * i) * uint ?b \<le> (2 ^ (8 * i) :: int) * 255"
    using ub by (intro mult_left_mono) simp_all
  moreover have "2 ^ (8 * Suc i) = (256::int) * 2 ^ (8 * i)" by (simp add: power_add)
  ultimately have x1: "?x < 2 ^ (8 * Suc i)" using Suc.prems(4) by linarith
  have x0: "0 \<le> ?x" using Suc.prems(3) ub by simp
  have IH: "read_int_pos k (Suc i) ?x ?st =
          Inr (?x + 2 ^ (8 * Suc i) * le_sum (take k (drop (nat (position ?st)) (data ?st))),
               ?st\<lparr>position := position ?st + int k\<rparr>)"
    using Suc.prems by (intro Suc.IH x0 x1) simp_all
  have nb: "take (Suc k) (drop (nat (position st)) (data st))
            = ?b # take k (drop (nat (position st + 1)) (data st))"
    using Suc.prems by (intro next_bytes_Suc) simp_all
  have "read_int_pos (Suc k) i x st = read_int_pos k (Suc i) ?x ?st"
    using signed_unsigned(1) [of ?b] by (simp add: rb step Let_def del: read_int_pos.simps(2) add: read_int_pos.simps(2) [of k i x st])
  then show ?case
    by (simp only: IH nb le_sum_Cons) (simp add: power_add algebra_simps)
qed

lemma read_int_neg_value:
  assumes "0 \<le> position st" "position st + int k \<le> int (length (data st))"
    and "0 \<le> S" "S < 2 ^ (8 * i)"
  shows "read_int_neg k i (S - 2 ^ (8 * i)) st =
           Inr (S + 2 ^ (8 * i) * le_sum (take k (drop (nat (position st)) (data st)))
                  - 2 ^ (8 * (i + k)),
                st\<lparr>position := position st + int k\<rparr>)"
  using assms
proof (induction k arbitrary: i S st)
  case 0
  then show ?case by (simp add: le_sum_Nil)
next
  case (Suc k)
  let ?b = "data st ! nat (position st)"
  let ?sb = "if uint ?b < 128 then uint ?b else uint ?b - 256"
  let ?st = "st\<lparr>position := position st + 1\<rparr>"
  let ?S = "S + 2 ^ (8 * i) * uint ?b"
  have rb: "read_byte st = Inr (?sb, ?st)"
    using Suc.prems by (intro read_byte_at) simp_all
  have step: "((S - 2 ^ (8 * i)) AND NOT (push_bit (8 * i) 255)) OR push_bit (8 * i) ?sb
              = ?S - 2 ^ (8 * Suc i)"
    using neg_step [OF Suc.prems(3,4), of ?sb] signed_unsigned(2) [of ?b] by simp
  have ub: "uint ?b < 256" "0 \<le> uint ?b" using uint_bounded [of ?b] by simp_all
  have "2 ^ (8 * i) * uint ?b \<le> (2 ^ (8 * i) :: int) * 255"
    using ub by (intro mult_left_mono) simp_all
  moreover have "2 ^ (8 * Suc i) = (256::int) * 2 ^ (8 * i)" by (simp add: power_add)
  ultimately have x1: "?S < 2 ^ (8 * Suc i)" using Suc.prems(4) by linarith
  have x0: "0 \<le> ?S" using Suc.prems(3) ub by simp
  have IH: "read_int_neg k (Suc i) (?S - 2 ^ (8 * Suc i)) ?st =
          Inr (?S + 2 ^ (8 * Suc i) * le_sum (take k (drop (nat (position ?st)) (data ?st)))
                 - 2 ^ (8 * (Suc i + k)),
               ?st\<lparr>position := position ?st + int k\<rparr>)"
    using Suc.prems by (intro Suc.IH x0 x1) simp_all
  have nb: "take (Suc k) (drop (nat (position st)) (data st))
            = ?b # take k (drop (nat (position st + 1)) (data st))"
    using Suc.prems by (intro next_bytes_Suc) simp_all
  have "read_int_neg (Suc k) i (S - 2 ^ (8 * i)) st
        = read_int_neg k (Suc i) (?S - 2 ^ (8 * Suc i)) ?st"
    by (simp only: read_int_neg.simps Let_def rb sum.case prod.case step)
  then show ?case
    by (simp only: IH nb le_sum_Cons) (simp add: power_add algebra_simps)
qed

lemma read_int_branches:
  assumes "read_byte st = Inr (c, st1)"
    and "1 \<le> \<bar>c\<bar> \<and> \<bar>c\<bar> \<le> 4 \<longrightarrow>
           0 \<le> position st1 \<and> position st1 + \<bar>c\<bar> \<le> int (length (data st1))"
  shows "read_int st =
           (if c = 0 then Inr (0, st1)
            else if c > 4 then Inr (c - 5, st1)
            else if c < - 4 then Inr (c + 5, st1)
            else if c > 0 then
              Inr (le_sum (next_bytes (nat c) st1), st1\<lparr>position := position st1 + c\<rparr>)
            else
              Inr (le_sum (next_bytes (nat (- c)) st1) - 256 ^ nat (- c),
                   st1\<lparr>position := position st1 - c\<rparr>))"
proof -
  consider "c = 0" | "c > 4" | "c < - 4" | "0 < c" "c \<le> 4" | "c < 0" "- 4 \<le> c" by linarith
  then show ?thesis
  proof cases
    case 4
    then have "0 \<le> position st1" "position st1 + int (nat c) \<le> int (length (data st1))"
      using assms(2) by simp_all
    from read_int_pos_value [OF this, of 0 0] 4 show ?thesis
      by (simp add: read_int_def assms(1) next_bytes_def)
  next
    case 5
    then have "0 \<le> position st1" "position st1 + int (nat (- c)) \<le> int (length (data st1))"
      using assms(2) by simp_all
    from read_int_neg_value [OF this, of 0 0] 5 show ?thesis
      by (simp add: read_int_def assms(1) next_bytes_def power_mult)
  qed (simp_all add: read_int_def assms(1))
qed

subsection \<open>C6: the packed-fixnum decoder\<close>

text \<open>
  C6. After the leading signed byte \<open>c\<close>, \<open>_read_int\<close> returns 0 for \<open>c = 0\<close>,
  \<open>c - 5\<close> for \<open>c > 4\<close>, \<open>c + 5\<close> for \<open>c < -4\<close>; for \<open>0 < c \<le> 4\<close> the
  little-endian sum of the next \<open>c\<close> bytes, each taken unsigned; for \<open>-4 \<le> c < 0\<close>
  the two's-complement value of the next \<open>-c\<close> bytes, that is their little-endian sum
  minus \<open>256 ^ (-c)\<close>, which is what the masking loop started at \<open>-1\<close> computes. The
  standard encodings of -123, -1, 0, 1, 122, 123, 255, 65536 and -65536 decode to these
  values.
\<close>

theorem C6_packed_fixnum:
  "(read_byte st = Inr (c, st1) \<and>
    (1 \<le> \<bar>c\<bar> \<and> \<bar>c\<bar> \<le> 4 \<longrightarrow>
       0 \<le> position st1 \<and> position st1 + \<bar>c\<bar> \<le> int (length (data st1)))
    \<longrightarrow>
    read_int st =
      (if c = 0 then Inr (0, st1)
       else if c > 4 then Inr (c - 5, st1)
       else if c < - 4 then Inr (c + 5, st1)
       else if c > 0 then
         Inr (le_sum (next_bytes (nat c) st1), st1\<lparr>position := position st1 + c\<rparr>)
       else
         Inr (le_sum (next_bytes (nat (- c)) st1) - 256 ^ nat (- c),
              st1\<lparr>position := position st1 - c\<rparr>)))
   \<and>
   map (\<lambda>bs. load 1 ([4, 8, 105] @ bs))
     [[0x80], [0xFA], [0], [6], [0x7F], [1, 0x7B], [1, 0xFF], [3, 0, 0, 1], [0xFE, 0, 0]]
   = map (\<lambda>v. Inr (PyInt v)) [- 123, - 1, 0, 1, 122, 123, 255, 65536, - 65536]"
proof (intro conjI impI)
  assume "read_byte st = Inr (c, st1) \<and>
    (1 \<le> \<bar>c\<bar> \<and> \<bar>c\<bar> \<le> 4 \<longrightarrow>
       0 \<le> position st1 \<and> position st1 + \<bar>c\<bar> \<le> int (length (data st1)))"
  then show "read_int st =
      (if c = 0 then Inr (0, st1)
       else if c > 4 then Inr (c - 5, st1)
       else if c < - 4 then Inr (c + 5, st1)
       else if c > 0 then
         Inr (le_sum (next_bytes (nat c) st1), st1\<lparr>position := position st1 + c\<rparr>)
       else
         Inr (le_sum (next_bytes (nat (- c)) st1) - 256 ^ nat (- c),
              st1\<lparr>position := position st1 - c\<rparr>))"
    using read_int_branches [of st c st1] by blast
next
  show "map (\<lambda>bs. load 1 ([4, 8, 105] @ bs))
     [[0x80], [0xFA], [0], [6], [0x7F], [1, 0x7B], [1, 0xFF], [3, 0, 0, 1], [0xFE, 0, 0]]
   = map (\<lambda>v. Inr (PyInt v)) [- 123, - 1, 0, 1, 122, 123, 255, 65536, - 65536]"
    by code_simp
qed

text \<open>The theorem at the encodings of -65536 and 65536.\<close>

theorem C6_packed_fixnum_witness:
  "read_byte (Marshal_init [0xFE, 0, 0]) = Inr (- 2, \<lparr>data = [0xFE, 0, 0], position = 1, symbols = []\<rparr>)
   \<and> read_int (Marshal_init [0xFE, 0, 0]) = Inr (- 65536, \<lparr>data = [0xFE, 0, 0], position = 3, symbols = []\<rparr>)
   \<and> read_byte (Marshal_init [3, 0, 0, 1]) = Inr (3, \<lparr>data = [3, 0, 0, 1], position = 1, symbols = []\<rparr>)
   \<and> read_int (Marshal_init [3, 0, 0, 1]) = Inr (65536, \<lparr>data = [3, 0, 0, 1], position = 4, symbols = []\<rparr>)"
proof -
  let ?a = "\<lparr>data = [0xFE, 0, 0 :: byte], position = 1, symbols = []\<rparr>"
  let ?b = "\<lparr>data = [3, 0, 0, 1 :: byte], position = 1, symbols = []\<rparr>"
  have a: "read_byte (Marshal_init [0xFE, 0, 0]) = Inr (- 2, ?a)"
    by (simp add: read_byte_def Marshal_init_def py_getitem_def)
  have b: "read_byte (Marshal_init [3, 0, 0, 1]) = Inr (3, ?b)"
    by (simp add: read_byte_def Marshal_init_def py_getitem_def)
  have la: "le_sum (next_bytes 2 ?a) = 0"
    by (simp add: next_bytes_def le_sum_Cons le_sum_Nil)
  have lb: "le_sum (next_bytes 3 ?b) = 65536"
    by (simp add: next_bytes_def le_sum_Cons le_sum_Nil)
  from C6_packed_fixnum [of "Marshal_init [0xFE, 0, 0]" "- 2" ?a] a la
  have "read_int (Marshal_init [0xFE, 0, 0]) = Inr (- 65536, ?a\<lparr>position := 3\<rparr>)"
    by simp
  moreover
  from C6_packed_fixnum [of "Marshal_init [3, 0, 0, 1]" 3 ?b] b lb
  have "read_int (Marshal_init [3, 0, 0, 1]) = Inr (65536, ?b\<lparr>position := 4\<rparr>)"
    by simp
  ultimately show ?thesis using a b by simp
qed

subsection \<open>C2: the cursor invariant\<close>

text \<open>
  C2. The claim: the position never decreases and stays within \<open>0 .. len(buffer)\<close>, for
  every count passed to \<open>_read_bytes\<close>, those decoded from the input included. The
  check of \<open>_read_bytes\<close> bounds the count from above only. A string whose length
  prefix decodes to -1 moves the position from 4 back to 3, and one whose prefix decodes
  to -5 leaves it at -1.
\<close>

theorem C2_position_moves_back:
  "read_bytes (- 1) \<lparr>data = [4, 8, 0x22, 0xFA], position = 4, symbols = []\<rparr>
     = Inr ([], \<lparr>data = [4, 8, 0x22, 0xFA], position = 3, symbols = []\<rparr>)
   \<and> load_impl 2 (Marshal_init [4, 8, 0x22, 0xFA])
     = Inr (PyStr [], \<lparr>data = [4, 8, 0x22, 0xFA], position = 3, symbols = []\<rparr>)
   \<and> load_impl 2 (Marshal_init [4, 8, 0x22, 0xF6])
     = Inr (PyStr [], \<lparr>data = [4, 8, 0x22, 0xF6], position = - 1, symbols = []\<rparr>)"
  by code_simp

subsection \<open>C4: symbol links\<close>

text \<open>
  C4. The claim: a link index outside \<open>0 .. len(symbols) - 1\<close> fails with
  \<open>InvalidSymbolLink\<close>. The check of \<open>_read_symbol_link\<close> is \<open>link >= len\<close> only:
  with one symbol in the table, the index -1 returns that symbol (Python counts a negative
  index from the end) and the index -2 raises \<open>IndexError\<close>.
\<close>

theorem C4_negative_link:
  "load 2 [4, 8, 0x5B, 7, 0x3A, 6, 0x61, 0x3B, 0xFA] = Inr (PyList [PyStr [58, 97], PyStr [58, 97]])
   \<and> load 2 [4, 8, 0x5B, 7, 0x3A, 6, 0x61, 0x3B, 0xF9] = Inl IndexError"
  by code_simp

subsection \<open>Loops over nested values\<close>

lemma read_seq_length: "read_seq rd k st = Inr (vs, st') \<Longrightarrow> length vs = k"
  by (induction k arbitrary: st vs) (auto split: sum.splits prod.splits)


lemma read_pairs_loop_seq:
  "read_pairs_loop rd k acc st =
     (case read_seq rd (2 * k) st of Inl e \<Rightarrow> Inl e | Inr (vs, s) \<Rightarrow> Inr (acc @ vs, s))"
  by (induction k arbitrary: acc st) (auto split: sum.splits prod.splits)

lemma read_hash_loop_seq:
  "read_hash_loop rd k acc st = Inr (m, st') \<longleftrightarrow>
     (\<exists>vs. read_seq rd (2 * k) st = Inr (vs, st') \<and> (\<forall>key \<in> fst ` set (pairs vs). hashable key)
           \<and> m = dict_of_pairs acc (pairs vs))"
proof (induction k arbitrary: acc st)
  case 0
  then show ?case by (auto simp: dict_of_pairs_def)
next
  case (Suc k)
  show ?case
  proof (cases "rd st")
    case (Inl e)
    then show ?thesis by simp
  next
    case (Inr r1)
    obtain key s1 where r1: "r1 = (key, s1)" by (cases r1)
    show ?thesis
    proof (cases "rd s1")
      case (Inl e)
      then show ?thesis using Inr r1 by simp
    next
      case r2: (Inr r2)
      obtain v s2 where r2': "r2 = (v, s2)" by (cases r2)
      show ?thesis
        using Inr r1 r2 r2' Suc.IH [of "dict_setitem acc key v" s2]
        by (auto simp: dict_of_pairs_def split: sum.splits prod.splits)
    qed
  qed
qed

subsection \<open>Dictionaries built by the hash loop\<close>

lemma keys_dict_setitem:
  "map (key_canon \<circ> fst) (dict_setitem m key v) =
     (if key_canon key \<in> set (map (key_canon \<circ> fst) m) then map (key_canon \<circ> fst) m
      else map (key_canon \<circ> fst) m @ [key_canon key])"
proof (induction m)
  case Nil
  show ?case by simp
next
  case (Cons kv m)
  obtain k' v' where kv: "kv = (k', v')" by (cases kv)
  show ?case
  proof (cases "key_canon k' = key_canon key")
    case True
    then show ?thesis by (simp add: kv py_eq_def)
  next
    case False
    then show ?thesis using Cons.IH by (simp add: kv py_eq_def)
  qed
qed

lemma map_of_dict_setitem:
  "map_of (canon_keys (dict_setitem m key v)) = (map_of (canon_keys m))(key_canon key \<mapsto> v)"
  by (induction m) (auto simp: py_eq_def canon_keys_def)

lemma first_occurrences_snoc:
  "rev (remdups (rev (xs @ [x]))) =
     (if x \<in> set xs then rev (remdups (rev xs)) else rev (remdups (rev xs)) @ [x])"
  by simp

lemma dict_of_pairs_snoc:
  "dict_of_pairs acc (kvs @ [(key, v)]) = dict_setitem (dict_of_pairs acc kvs) key v"
  by (simp add: dict_of_pairs_def)

lemma dict_of_pairs_keys:
  "map (key_canon \<circ> fst) (dict_of_pairs [] kvs) = rev (remdups (rev (map (key_canon \<circ> fst) kvs)))"
proof (induction kvs rule: rev_induct)
  case Nil
  show ?case by (simp add: dict_of_pairs_def)
next
  case (snoc kv kvs)
  obtain key v where kv: "kv = (key, v)" by (cases kv)
  have "set (map (key_canon \<circ> fst) (dict_of_pairs [] kvs)) = set (map (key_canon \<circ> fst) kvs)"
    by (simp only: snoc.IH set_rev set_remdups)
  then show ?case
    unfolding kv dict_of_pairs_snoc keys_dict_setitem
    by (simp add: snoc.IH)
qed

lemma dict_of_pairs_values:
  "map_of (canon_keys (dict_of_pairs [] kvs)) = map_of (rev (canon_keys kvs))"
proof (induction kvs rule: rev_induct)
  case Nil
  show ?case by (simp add: dict_of_pairs_def canon_keys_def)
next
  case (snoc kv kvs)
  obtain key v where kv: "kv = (key, v)" by (cases kv)
  show ?case
    unfolding kv dict_of_pairs_snoc map_of_dict_setitem snoc.IH
    by (simp add: canon_keys_def)
qed

subsection \<open>C1: the value of a HASH production\<close>

text \<open>
  C1, as claimed: a hash body with the same key twice yields a mapping with both pairs.
  The stream \<open>{1 => 2, 1 => 3}\<close> decodes to a dict with the single pair \<open>(1, 3)\<close>:
  \<open>_read_hash\<close> stores into a Python \<open>dict\<close>, so the last value wins.
\<close>

theorem C1_duplicate_key_counterexample:
  "load 2 [4, 8, 0x7B, 7, 0x69, 6, 0x69, 7, 0x69, 6, 0x69, 8] = Inr (PyDict [(PyInt 1, PyInt 3)])"
  by code_simp

text \<open>
  C1, amended. A HASH production returns a Python dict built by \<open>result[key] = value\<close>
  over the \<open>2 * count\<close> values of the stream taken as pairs: its keys are the keys of
  the stream in the order of their first occurrence, each once, and each key carries the
  value of its last occurrence.
\<close>

theorem C1_hash_is_dict:
  assumes "read_hash rd st = Inr (PyDict m, st')"
  shows "\<exists>n st1 vs.
           read_int st = Inr (n, st1) \<and> read_seq rd (2 * nat n) st1 = Inr (vs, st')
           \<and> map (key_canon \<circ> fst) m = rev (remdups (rev (map (key_canon \<circ> fst) (pairs vs))))
           \<and> map_of (canon_keys m) = map_of (rev (canon_keys (pairs vs)))"
proof -
  from assms obtain n st1 where ri: "read_int st = Inr (n, st1)"
    and hl: "read_hash_loop rd (nat n) [] st1 = Inr (m, st')"
    by (auto simp: read_hash_def split: sum.splits prod.splits)
  from hl obtain vs where "read_seq rd (2 * nat n) st1 = Inr (vs, st')"
    and "m = dict_of_pairs [] (pairs vs)"
    unfolding read_hash_loop_seq by blast
  with ri show ?thesis
    using dict_of_pairs_keys [of "pairs vs"] dict_of_pairs_values [of "pairs vs"] by blast
qed

text \<open>The theorem at the stream \<open>{1 => 2, 1 => 3}\<close>.\<close>

theorem C1_hash_is_dict_witness:
  "read_hash (read 1) \<lparr>data = [4, 8, 0x7B, 7, 0x69, 6, 0x69, 7, 0x69, 6, 0x69, 8], position = 3, symbols = []\<rparr>
     = Inr (PyDict [(PyInt 1, PyInt 3)],
            \<lparr>data = [4, 8, 0x7B, 7, 0x69, 6, 0x69, 7, 0x69, 6, 0x69, 8], position = 12, symbols = []\<rparr>)
   \<and> (\<exists>n st1 vs.
         read_int \<lparr>data = [4, 8, 0x7B, 7, 0x69, 6, 0x69, 7, 0x69, 6, 0x69, 8], position = 3, symbols = []\<rparr>
           = Inr (n, st1)
         \<and> read_seq (read 1) (2 * nat n) st1
           = Inr (vs, \<lparr>data = [4, 8, 0x7B, 7, 0x69, 6, 0x69, 7, 0x69, 6, 0x69, 8], position = 12, symbols = []\<rparr>)
         \<and> map (key_canon \<circ> fst) [(PyInt 1, PyInt 3)]
           = rev (remdups (rev (map (key_canon \<circ> fst) (pairs vs))))
         \<and> map_of (canon_keys [(PyInt 1, PyInt 3)]) = map_of (rev (canon_keys (pairs vs))))"
proof -
  have h: "read_hash (read 1) \<lparr>data = [4, 8, 0x7B, 7, 0x69, 6, 0x69, 7, 0x69, 6, 0x69, 8], position = 3, symbols = []\<rparr>
     = Inr (PyDict [(PyInt 1, PyInt 3)],
            \<lparr>data = [4, 8, 0x7B, 7, 0x69, 6, 0x69, 7, 0x69, 6, 0x69, 8], position = 12, symbols = []\<rparr>)"
    by code_simp
  show ?thesis by (rule conjI [OF h C1_hash_is_dict [OF h]])
qed

subsection \<open>C5: element and pair counts\<close>

text \<open>
  C5. The claim: an ARRAY or HASH production whose decoded count is negative fails. No
  production checks the count it decodes: with the count -1 the loop over
  \<open>range(size)\<close> runs no round, and the decode returns \<open>[]\<close> for the array and
  \<open>{}\<close> for the hash instead of failing.
\<close>

theorem C5_negative_count_accepted:
  "read_int \<lparr>data = [4, 8, 0x5B, 0xFA], position = 3, symbols = []\<rparr>
     = Inr (- 1, \<lparr>data = [4, 8, 0x5B, 0xFA], position = 4, symbols = []\<rparr>)
   \<and> load 1 [4, 8, 0x5B, 0xFA] = Inr (PyList [])
   \<and> load 1 [4, 8, 0x7B, 0xFA] = Inr (PyDict [])"
  by code_simp

subsection \<open>Dispatch on the type byte\<close>

lemma from_byte_tags:
  "from_byte 48 = Some NIL" "from_byte 84 = Some TRUE" "from_byte 70 = Some FALSE"
  "from_byte 105 = Some INT_tag" "from_byte 108 = Some BIGNUM" "from_byte 123 = Some HASH"
  "from_byte 91 = Some ARRAY" "from_byte 34 = Some STRING" "from_byte 73 = Some IVARS"
  "from_byte 58 = Some SYMBOL" "from_byte 59 = Some SYMBOL_LINK" "from_byte 85 = Some USR_MARSHAL"
  "from_byte 101 = Some EXTENDED" "from_byte 117 = Some USERDEF" "from_byte 64 = Some LINK"
  "from_byte 111 = Some OBJECT" "from_byte 0 = Some NONE"
  by (simp_all add: from_byte_def RubyType_members_def)

lemma read_Suc:
  "read_byte st = Inr (b, s0) \<Longrightarrow> from_byte b = Some t \<Longrightarrow>
     read (Suc d) st = dispatch (read d) b t s0"
  by simp

subsection \<open>C9: the IVARS production\<close>

text \<open>
  C9. At the type byte 73 (\<open>I\<close>), \<open>_read\<close> returns a value exactly when the nested
  payload decodes, an attribute count \<open>n\<close> decodes after it and the \<open>2 * n\<close> attribute
  keys and values decode after that; the value returned is the payload itself, and the
  attributes, though consumed from the stream, are not part of the result.
\<close>

theorem C9_ivar_returns_payload:
  assumes "read_byte st = Inr (73, s0)"
  shows "read (Suc d) st = Inr (v, st') \<longleftrightarrow>
           (\<exists>s1 n s2 attrs.
              read d s0 = Inr (v, s1) \<and> read_int s1 = Inr (n, s2)
              \<and> read_seq (read d) (2 * nat n) s2 = Inr (attrs, st')
              \<and> length attrs = 2 * nat n)"
proof -
  have "read (Suc d) st = read_ivar (read d) s0"
    using read_Suc [OF assms from_byte_tags(9)] by simp
  moreover have "read_ivar (read d) s0 = Inr (v, st') \<longleftrightarrow>
           (\<exists>s1 n s2 attrs.
              read d s0 = Inr (v, s1) \<and> read_int s1 = Inr (n, s2)
              \<and> read_seq (read d) (2 * nat n) s2 = Inr (attrs, st'))"
    by (auto simp: read_ivar_def read_pairs_loop_seq split: sum.splits prod.splits)
  ultimately show ?thesis using read_seq_length by metis
qed

text \<open>The theorem at the string \<open>"az"\<close> with its encoding attribute \<open>:E => true\<close>.\<close>

theorem C9_ivar_returns_payload_witness:
  "read_byte \<lparr>data = [4, 8, 73, 34, 7, 97, 122, 6, 58, 6, 69, 84], position = 2, symbols = []\<rparr>
     = Inr (73, \<lparr>data = [4, 8, 73, 34, 7, 97, 122, 6, 58, 6, 69, 84], position = 3, symbols = []\<rparr>)
   \<and> read (Suc 1) \<lparr>data = [4, 8, 73, 34, 7, 97, 122, 6, 58, 6, 69, 84], position = 2, symbols = []\<rparr>
     = Inr (PyStr [97, 122],
            \<lparr>data = [4, 8, 73, 34, 7, 97, 122, 6, 58, 6, 69, 84], position = 12, symbols = [[58, 69]]\<rparr>)
   \<and> (\<exists>s1 n s2 attrs.
         read 1 \<lparr>data = [4, 8, 73, 34, 7, 97, 122, 6, 58, 6, 69, 84], position = 3, symbols = []\<rparr>
           = Inr (PyStr [97, 122], s1)
         \<and> read_int s1 = Inr (n, s2)
         \<and> read_seq (read 1) (2 * nat n) s2
           = Inr (attrs, \<lparr>data = [4, 8, 73, 34, 7, 97, 122, 6, 58, 6, 69, 84], position = 12, symbols = [[58, 69]]\<rparr>)
         \<and> length attrs = 2 * nat n)"
proof -
  have h1: "read_byte \<lparr>data = [4, 8, 73, 34, 7, 97, 122, 6, 58, 6, 69, 84], position = 2, symbols = []\<rparr>
     = Inr (73, \<lparr>data = [4, 8, 73, 34, 7, 97, 122, 6, 58, 6, 69, 84], position = 3, symbols = []\<rparr>)"
    by code_simp
  have h2: "read (Suc 1) \<lparr>data = [4, 8, 73, 34, 7, 97, 122, 6, 58, 6, 69, 84], position = 2, symbols = []\<rparr>
     = Inr (PyStr [97, 122],
            \<lparr>data = [4, 8, 73, 34, 7, 97, 122, 6, 58, 6, 69, 84], position = 12, symbols = [[58, 69]]\<rparr>)"
    by code_simp
  show ?thesis
    by (rule conjI [OF h1 conjI [OF h2 C9_ivar_returns_payload [OF h1, THEN iffD1, OF h2]]])
qed

subsection \<open>C7: the BIGNUM production\<close>

lemma bignum_loop_value: "bignum_loop i bs r = r + 256 ^ i * le_sum bs"
proof (induction bs arbitrary: i r)
  case Nil
  show ?case by (simp add: le_sum_Nil)
next
  case (Cons b bs)
  have "(2::int) ^ (i * 8) = (2 ^ 8) ^ i" by (simp only: power_mult mult.commute [of i 8])
  then have "(256::int) ^ i = 2 ^ (i * 8)" by simp
  then show ?case
    by (simp add: Cons.IH le_sum_Cons push_bit_eq_mult algebra_simps)
qed

lemma py_slice_forward:
  assumes "0 \<le> p" "0 \<le> c" "p + c \<le> int (length xs)"
  shows "py_slice xs p (p + c) = take (nat c) (drop (nat p) xs)"
proof -
  have "py_clamp (length xs) p = nat p" "py_clamp (length xs) (p + c) = nat (p + c)"
    using assms by (simp_all add: py_clamp_def)
  moreover have "nat (p + c) - nat p = nat c" using assms by simp
  ultimately show ?thesis by (simp add: py_slice_def)
qed

lemma read_bytes_forward:
  assumes "0 \<le> position st" "0 \<le> c"
  shows "read_bytes c st =
           (if position st + c > int (length (data st)) then Inl UnexpectedEndOfInput
            else Inr (next_bytes (nat c) st, st\<lparr>position := position st + c\<rparr>))"
  using assms py_slice_forward [of "position st" c "data st"]
  by (simp add: read_bytes_def next_bytes_def)

text \<open>
  With the cursor inside the buffer and a length \<open>n \<ge> 0\<close>, \<open>_read_bignum\<close> returns
  the little-endian sum of the next \<open>2 * n\<close> bytes, whatever the sign byte; and a
  returned integer is never negative.
\<close>

lemma read_bignum_value:
  "(\<forall>v st'. read_bignum st = Inr (v, st') \<longrightarrow> 0 \<le> v)
   \<and> (read_byte st = Inr (sign_byte, s1) \<and> read_int s1 = Inr (n, s2) \<and> 0 \<le> n \<and> 0 \<le> position s2
        \<longrightarrow>
        read_bignum st =
          (if position s2 + 2 * n > int (length (data s2)) then Inl UnexpectedEndOfInput
           else Inr (le_sum (next_bytes (nat (2 * n)) s2), s2\<lparr>position := position s2 + 2 * n\<rparr>)))"
proof (intro conjI allI impI)
  fix v st'
  assume "read_bignum st = Inr (v, st')"
  then obtain bs where "v = bignum_loop 0 bs 0"
    by (auto simp: read_bignum_def split: sum.splits prod.splits)
  then show "0 \<le> v" by (simp add: bignum_loop_value le_sum_nonneg)
next
  assume a: "read_byte st = Inr (sign_byte, s1) \<and> read_int s1 = Inr (n, s2) \<and> 0 \<le> n \<and> 0 \<le> position s2"
  then have "0 \<le> position s2" "0 \<le> n * 2" by simp_all
  from read_bytes_forward [OF this] a
  show "read_bignum st =
          (if position s2 + 2 * n > int (length (data s2)) then Inl UnexpectedEndOfInput
           else Inr (le_sum (next_bytes (nat (2 * n)) s2), s2\<lparr>position := position s2 + 2 * n\<rparr>))"
    by (simp add: read_bignum_def bignum_loop_value mult.commute)
qed

text \<open>
  C7. The claim: every BIGNUM production reads exactly \<open>2 * n\<close> bytes after the length
  \<open>n\<close> and returns their little-endian sum. The length is not checked. In the stream
  below it decodes to -3: \<open>_read_bytes(-6)\<close> passes its bounds check, the slice
  \<open>data[5:-1]\<close> holds the two bytes 01 02, the result is 513 and the position is left
  at -1.
\<close>

theorem C7_negative_length:
  "read_int \<lparr>data = [4, 8, 0x6C, 0x2B, 0xF8, 1, 2, 3], position = 4, symbols = []\<rparr>
     = Inr (- 3, \<lparr>data = [4, 8, 0x6C, 0x2B, 0xF8, 1, 2, 3], position = 5, symbols = []\<rparr>)
   \<and> read_bignum \<lparr>data = [4, 8, 0x6C, 0x2B, 0xF8, 1, 2, 3], position = 3, symbols = []\<rparr>
     = Inr (513, \<lparr>data = [4, 8, 0x6C, 0x2B, 0xF8, 1, 2, 3], position = - 1, symbols = []\<rparr>)
   \<and> load 1 [4, 8, 0x6C, 0x2B, 0xF8, 1, 2, 3] = Inr (PyInt 513)"
  by code_simp

subsection \<open>C3: failures of the decoder\<close>

lemma load_header:
  "load depth [] = Inl UnexpectedEndOfInput"
  "load depth [4] = Inl UnexpectedEndOfInput"
  "b \<noteq> 4 \<Longrightarrow> load depth (b # bs) = Inl UnsupportedVersion"
  "b \<noteq> 8 \<Longrightarrow> load depth (4 # b # bs) = Inl UnsupportedVersion"
proof -
  show "load depth [] = Inl UnexpectedEndOfInput"
    by (simp add: load_def load_impl_def read_byte_def Marshal_init_def)
  show "load depth [4] = Inl UnexpectedEndOfInput"
    by (simp add: load_def load_impl_def read_byte_def Marshal_init_def py_getitem_def Let_def)
  have sb: "(if uint x < 128 then uint x else uint x - 256) = k \<longleftrightarrow> x = word_of_int k"
    if "0 \<le> k" "k < 128" for x :: byte and k
  proof
    assume a: "(if uint x < 128 then uint x else uint x - 256) = k"
    have "uint x < 256" using uint_bounded [of x] by simp
    with a that have "uint x = k" by (auto split: if_splits)
    then show "x = word_of_int k" by (metis word_of_int_uint)
  next
    assume "x = word_of_int k"
    then have "uint x = k" using that by (simp add: uint_word_of_int)
    then show "(if uint x < 128 then uint x else uint x - 256) = k" using that by simp
  qed
  show "load depth (b # bs) = Inl UnsupportedVersion" if "b \<noteq> 4"
    using that sb [of 4 b]
    by (simp add: load_def load_impl_def read_byte_def Marshal_init_def py_getitem_def Let_def)
  show "load depth (4 # b # bs) = Inl UnsupportedVersion" if "b \<noteq> 8"
    using that sb [of 8 b]
    by (simp add: load_def load_impl_def read_byte_def Marshal_init_def py_getitem_def Let_def)
qed

lemma unknown_type_byte:
  "read_byte st = Inr (tb, s0) \<Longrightarrow> from_byte tb = None \<Longrightarrow>
     read (Suc depth) st = Inl (UnsupportedType tb)"
  by simp

lemma none_type_byte:
  "read_byte st = Inr (0, s0) \<Longrightarrow> read (Suc depth) st = Inl (UnsupportedType 0)"
  by (simp add: from_byte_tags)

lemma class_slot_other:
  "read_byte st = Inr (tb, s0) \<Longrightarrow> from_byte tb \<noteq> Some SYMBOL \<Longrightarrow>
     from_byte tb \<noteq> Some SYMBOL_LINK \<Longrightarrow> read_class_symbol st = Inl (UnexpectedType tb)"
  by (simp add: read_class_symbol_def)

lemma link_beyond_table:
  "read_int st = Inr (link, s1) \<Longrightarrow> link \<ge> int (length (symbols s1)) \<Longrightarrow>
     read_symbol_link st = Inl (InvalidSymbolLink link)"
  by (simp add: read_symbol_link_def)

lemma invalid_utf8_payload:
  assumes "read_int st = Inr (n, s1)" "read_bytes n s1 = Inr (payload, s2)"
    and "utf8_decode (map unat payload) = None"
  shows "read_string st = Inl InvalidEncoding"
    and "n \<noteq> 0 \<Longrightarrow> read_symbol st = Inl InvalidEncoding"
  using assms by (simp_all add: read_string_def read_symbol_def decode_utf8_def)

lemma unhashable_key:
  "rd st = Inr (key, s1) \<Longrightarrow> rd s1 = Inr (v, s2) \<Longrightarrow> \<not> hashable key \<Longrightarrow>
     read_hash_loop rd (Suc k) acc st = Inl TypeError"
  by simp

lemma load_b64_cases:
  "b64decode t = None \<Longrightarrow> load_b64 b64decode depth t = Inl InvalidEncoding"
  "b64decode t = Some d \<Longrightarrow> load_b64 b64decode depth t = load depth d"
  by (simp_all add: load_b64_def load_def)

text \<open>
  What holds of the malformed inputs the specification names: empty input and a truncated
  header end in \<open>UnexpectedEndOfInput\<close>, another header in \<open>UnsupportedVersion\<close>, an
  unknown type byte in \<open>UnsupportedType\<close>, another tag in a class-name slot in
  \<open>UnexpectedType\<close>, a link index at or beyond the table size in
  \<open>InvalidSymbolLink\<close>, invalid base64 text and an invalid UTF-8 payload in
  \<open>InvalidEncoding\<close>. A hash key that is not hashable ends in \<open>TypeError\<close>, and
  nesting beyond the depth allowed in \<open>RecursionError\<close>.
\<close>

lemma malformed_input_kinds:
  "load depth [] = Inl UnexpectedEndOfInput
   \<and> load depth [4] = Inl UnexpectedEndOfInput
   \<and> (b \<noteq> 4 \<longrightarrow> load depth (b # bs) = Inl UnsupportedVersion)
   \<and> (b' \<noteq> 8 \<longrightarrow> load depth (4 # b' # bs') = Inl UnsupportedVersion)
   \<and> (read_byte st = Inr (tb, s0) \<and> from_byte tb = None \<longrightarrow>
        read (Suc depth) st = Inl (UnsupportedType tb))
   \<and> (read_byte sc = Inr (cb, sc0) \<and> from_byte cb \<noteq> Some SYMBOL \<and> from_byte cb \<noteq> Some SYMBOL_LINK \<longrightarrow>
        read_class_symbol sc = Inl (UnexpectedType cb))
   \<and> (read_int sl = Inr (link, sl1) \<and> link \<ge> int (length (symbols sl1)) \<longrightarrow>
        read_symbol_link sl = Inl (InvalidSymbolLink link))
   \<and> (read_int su = Inr (n, su1) \<and> read_bytes n su1 = Inr (payload, su2)
        \<and> utf8_decode (map unat payload) = None \<longrightarrow>
        read_string su = Inl InvalidEncoding \<and> (n \<noteq> 0 \<longrightarrow> read_symbol su = Inl InvalidEncoding))
   \<and> (b64decode t = None \<longrightarrow> load_b64 b64decode depth t = Inl InvalidEncoding)
   \<and> (b64decode t' = Some d \<longrightarrow> load_b64 b64decode depth t' = load depth d)
   \<and> (rd sh = Inr (key, sh1) \<and> rd sh1 = Inr (v, sh2) \<and> \<not> hashable key \<longrightarrow>
        read_hash_loop rd (Suc k) acc sh = Inl TypeError)
   \<and> read 0 sr = Inl RecursionError"
proof (intro conjI impI)
  show "load depth [] = Inl UnexpectedEndOfInput" by (rule load_header(1))
  show "load depth [4] = Inl UnexpectedEndOfInput" by (rule load_header(2))
  show "load depth (b # bs) = Inl UnsupportedVersion" if "b \<noteq> 4"
    using that by (rule load_header(3))
  show "load depth (4 # b' # bs') = Inl UnsupportedVersion" if "b' \<noteq> 8"
    using that by (rule load_header(4))
  show "read (Suc depth) st = Inl (UnsupportedType tb)"
    if "read_byte st = Inr (tb, s0) \<and> from_byte tb = None"
    using that unknown_type_byte by blast
  show "read_class_symbol sc = Inl (UnexpectedType cb)"
    if "read_byte sc = Inr (cb, sc0) \<and> from_byte cb \<noteq> Some SYMBOL \<and> from_byte cb \<noteq> Some SYMBOL_LINK"
    using that class_slot_other by blast
  show "read_symbol_link sl = Inl (InvalidSymbolLink link)"
    if "read_int sl = Inr (link, sl1) \<and> link \<ge> int (length (symbols sl1))"
    using that link_beyond_table by blast
  show "read_string su = Inl InvalidEncoding"
    if "read_int su = Inr (n, su1) \<and> read_bytes n su1 = Inr (payload, su2)
        \<and> utf8_decode (map unat payload) = None"
    using that invalid_utf8_payload(1) by blast
  show "read_symbol su = Inl InvalidEncoding"
    if "read_int su = Inr (n, su1) \<and> read_bytes n su1 = Inr (payload, su2)
        \<and> utf8_decode (map unat payload) = None" "n \<noteq> 0"
    using that invalid_utf8_payload(2) by blast
  show "load_b64 b64decode depth t = Inl InvalidEncoding" if "b64decode t = None"
    using that by (rule load_b64_cases(1))
  show "load_b64 b64decode depth t' = load depth d" if "b64decode t' = Some d"
    using that by (rule load_b64_cases(2))
  show "read_hash_loop rd (Suc k) acc sh = Inl TypeError"
    if "rd sh = Inr (key, sh1) \<and> rd sh1 = Inr (v, sh2) \<and> \<not> hashable key"
    using that unhashable_key by blast
  show "read 0 sr = Inl RecursionError" by simp
qed

text \<open>
  C3. The claim: every input gives a value or one of the six error kinds. The stream of
  the Ruby hash \<open>{[] => nil}\<close> is well formed, and its decode ends in the
  \<open>TypeError\<close> that \<open>result[key] = value\<close> raises for the list key; the symbol link
  -2 into a table of one symbol ends in \<open>IndexError\<close>. Neither is one of the six.
\<close>

theorem C3_failure_outside_kinds:
  "load 2 [4, 8, 0x7B, 6, 0x5B, 0, 0x30] = Inl TypeError
   \<and> \<not> surfaces_defined_kind (load 2 [4, 8, 0x7B, 6, 0x5B, 0, 0x30])
   \<and> load 2 [4, 8, 0x5B, 7, 0x3A, 6, 0x61, 0x3B, 0xF9] = Inl IndexError
   \<and> \<not> surfaces_defined_kind (load 2 [4, 8, 0x5B, 7, 0x3A, 6, 0x61, 0x3B, 0xF9])"
  by code_simp

subsection \<open>The decoder on well-formed encodings\<close>










lemma read_seq_cur_Suc:
  assumes "rd (cur pre ((e @ es) @ post) syms) = Inr (v, cur (pre @ e) (es @ post) s1)"
    and "read_seq rd k (cur (pre @ e) (es @ post) s1) = Inr (vs, cur ((pre @ e) @ es) post s2)"
  shows "read_seq rd (Suc k) (cur pre ((e @ es) @ post) syms) = Inr (v # vs, cur (pre @ e @ es) post s2)"
  using assms by simp










subsection \<open>C10: trailing bytes\<close>



subsection \<open>The decoder touches its own instance only\<close>

text \<open>
  Every method of the store model is the lifting of the method of the record model: it
  reads and writes the instance at \<open>self\<close> and the list that instance names, and
  nothing else in the store.
\<close>

lemma obj_eta:
  "\<lparr>inst_data = inst_data x, inst_position = inst_position x, inst_symbols = inst_symbols x\<rparr> = x"
  "x\<lparr>inst_position := p\<rparr> = \<lparr>inst_data = inst_data x, inst_position = p, inst_symbols = inst_symbols x\<rparr>"
  by (cases x, simp)+

lemma store_eta:
  "h\<lparr>instances := xs\<rparr> = \<lparr>instances = xs, lists = lists h\<rparr>"
  "h\<lparr>lists := ys\<rparr> = \<lparr>instances = instances h, lists = ys\<rparr>"
  "\<lparr>instances = instances h, lists = lists h\<rparr> = h"
  by (cases h, simp)+

lemma wf_put: "wf_obj self h \<Longrightarrow> wf_obj self (put self h st)"
  by (simp add: wf_obj_def put_def)

lemma view_put: "wf_obj self h \<Longrightarrow> view self (put self h st) = st"
  by (simp add: wf_obj_def put_def view_def symbols_of_def)

lemma put_put: "wf_obj self h \<Longrightarrow> put self (put self h st1) st2 = put self h st2"
  by (simp add: wf_obj_def put_def)

lemma put_view: "put self h (view self h) = h"
  by (simp add: put_def view_def symbols_of_def obj_eta store_eta)

lemma set_position_put:
  "set_position self p h = put self h ((view self h)\<lparr>position := p\<rparr>)"
  by (simp add: set_position_def put_def view_def symbols_of_def obj_eta store_eta)

lemma symbols_append_put:
  "symbols_append self s h = put self h ((view self h)\<lparr>symbols := symbols (view self h) @ [s]\<rparr>)"
  by (simp add: symbols_append_def put_def view_def symbols_of_def obj_eta store_eta)

lemma symbols_of_view: "symbols_of self h = symbols (view self h)"
  by (simp add: view_def)

lemma obj_read_byte_lift: "obj_read_byte self h = lift read_byte self h"
  by (simp add: obj_read_byte_def read_byte_def lift_def set_position_put Let_def
        split: sum.splits) (simp add: view_def)

lemma obj_read_bytes_lift: "obj_read_bytes count self h = lift (read_bytes count) self h"
  by (simp add: obj_read_bytes_def read_bytes_def lift_def set_position_put Let_def)
     (simp add: view_def)

lemmas sim = wf_put view_put put_put

lemma lift_Inl: "f (view self h) = Inl e \<Longrightarrow> lift f self h = Inl e"
  by (simp add: lift_def)

lemma lift_Inr: "f (view self h) = Inr (v, st') \<Longrightarrow> lift f self h = Inr (v, put self h st')"
  by (simp add: lift_def)

lemma obj_read_int_pos_lift:
  "wf_obj self h \<Longrightarrow> obj_read_int_pos k i x self h = lift (read_int_pos k i x) self h"
proof (induction k arbitrary: i x h)
  case 0
  show ?case by (simp add: lift_def put_view)
next
  case (Suc k)
  show ?case
  proof (cases "read_byte (view self h)")
    case (Inl e)
    then show ?thesis by (simp add: obj_read_byte_lift lift_def)
  next
    case (Inr r)
    obtain b st1 where r: "r = (b, st1)" by (cases r)
    have w: "wf_obj self (put self h st1)" using Suc.prems by (rule wf_put)
    show ?thesis
      using Inr r Suc.IH [OF w] Suc.prems
      by (simp add: obj_read_byte_lift lift_def sim Let_def split: sum.splits prod.splits)
  qed
qed

lemma obj_read_int_neg_lift:
  "wf_obj self h \<Longrightarrow> obj_read_int_neg k i x self h = lift (read_int_neg k i x) self h"
proof (induction k arbitrary: i x h)
  case 0
  show ?case by (simp add: lift_def put_view)
next
  case (Suc k)
  show ?case
  proof (cases "read_byte (view self h)")
    case (Inl e)
    then show ?thesis by (simp add: obj_read_byte_lift lift_def)
  next
    case (Inr r)
    obtain b st1 where r: "r = (b, st1)" by (cases r)
    have w: "wf_obj self (put self h st1)" using Suc.prems by (rule wf_put)
    show ?thesis
      using Inr r Suc.IH [OF w] Suc.prems
      by (simp add: obj_read_byte_lift lift_def sim Let_def split: sum.splits prod.splits)
  qed
qed

lemma obj_read_int_lift: "wf_obj self h \<Longrightarrow> obj_read_int self h = lift read_int self h"
proof (cases "read_byte (view self h)")
  case (Inl e)
  then show ?thesis by (simp add: obj_read_int_def read_int_def obj_read_byte_lift lift_def)
next
  case (Inr r)
  assume wf: "wf_obj self h"
  obtain c st1 where r: "r = (c, st1)" by (cases r)
  have w: "wf_obj self (put self h st1)" using wf by (rule wf_put)
  show ?thesis
    using Inr r wf obj_read_int_pos_lift [OF w] obj_read_int_neg_lift [OF w]
    by (simp add: obj_read_int_def read_int_def obj_read_byte_lift lift_def sim
          split: sum.splits prod.splits)
qed

lemma case_lift:
  "(case lift f self h of Inl e \<Rightarrow> A e | Inr p \<Rightarrow> B p)
   = (case f (view self h) of Inl e \<Rightarrow> A e | Inr p \<Rightarrow> B (fst p, put self h (snd p)))"
  by (simp add: lift_def split: sum.splits prod.splits)

lemma lift_case:
  "lift (\<lambda>st. case f st of Inl e \<Rightarrow> Inl e | Inr p \<Rightarrow> g p) self h
   = (case f (view self h) of Inl e \<Rightarrow> Inl e
      | Inr p \<Rightarrow> (case g p of Inl e \<Rightarrow> Inl e | Inr (v, st') \<Rightarrow> Inr (v, put self h st')))"
  by (simp add: lift_def split: sum.splits prod.splits)

lemma obj_read_symbol_link_lift:
  "wf_obj self h \<Longrightarrow> obj_read_symbol_link self h = lift read_symbol_link self h"
  unfolding obj_read_symbol_link_def
  by (simp add: obj_read_int_lift case_lift symbols_of_view sim)
     (simp add: lift_def read_symbol_link_def symbols_of_view sim split: sum.splits prod.splits)

lemma obj_read_symbol_lift: "wf_obj self h \<Longrightarrow> obj_read_symbol self h = lift read_symbol self h"
  unfolding obj_read_symbol_def
  by (simp add: obj_read_int_lift case_lift sim Let_def)
     (auto simp: lift_def read_symbol_def obj_read_bytes_lift symbols_append_put sim Let_def
        split: sum.splits prod.splits)

lemma obj_read_class_symbol_lift:
  "wf_obj self h \<Longrightarrow> obj_read_class_symbol self h = lift read_class_symbol self h"
  unfolding obj_read_class_symbol_def
  by (simp add: obj_read_byte_lift case_lift sim Let_def)
     (auto simp: lift_def read_class_symbol_def obj_read_symbol_lift obj_read_symbol_link_lift
        sim Let_def split: sum.splits prod.splits)

lemma obj_read_array_loop_lift:
  assumes "\<And>h. wf_obj self h \<Longrightarrow> rdo self h = lift rd self h"
  shows "wf_obj self h \<Longrightarrow>
         obj_read_array_loop rdo k acc self h = lift (read_array_loop rd k acc) self h"
proof (induction k arbitrary: acc h)
  case 0
  show ?case by (simp add: lift_def put_view)
next
  case (Suc k)
  then show ?case
    by (simp add: assms case_lift sim) (auto simp: lift_def sim split: sum.splits prod.splits)
qed

lemma obj_read_hash_loop_lift:
  assumes "\<And>h. wf_obj self h \<Longrightarrow> rdo self h = lift rd self h"
  shows "wf_obj self h \<Longrightarrow>
         obj_read_hash_loop rdo k acc self h = lift (read_hash_loop rd k acc) self h"
proof (induction k arbitrary: acc h)
  case 0
  show ?case by (simp add: lift_def put_view)
next
  case (Suc k)
  then show ?case
    by (simp add: assms case_lift sim)
       (auto simp: lift_def assms sim split: sum.splits prod.splits)
qed

lemma obj_read_pairs_loop_lift:
  assumes "\<And>h. wf_obj self h \<Longrightarrow> rdo self h = lift rd self h"
  shows "wf_obj self h \<Longrightarrow>
         obj_read_pairs_loop rdo k acc self h = lift (read_pairs_loop rd k acc) self h"
proof (induction k arbitrary: acc h)
  case 0
  show ?case by (simp add: lift_def put_view)
next
  case (Suc k)
  then show ?case
    by (simp add: assms case_lift sim)
       (auto simp: lift_def assms sim split: sum.splits prod.splits)
qed

lemma obj_read_array_lift:
  assumes "\<And>h. wf_obj self h \<Longrightarrow> rdo self h = lift rd self h"
  shows "wf_obj self h \<Longrightarrow> obj_read_array rdo self h = lift (read_array rd) self h"
  unfolding obj_read_array_def
  by (simp add: obj_read_int_lift case_lift sim)
     (auto simp: lift_def read_array_def obj_read_array_loop_lift [of self rdo rd, OF assms] sim
        split: sum.splits prod.splits)

lemma obj_read_hash_lift:
  assumes "\<And>h. wf_obj self h \<Longrightarrow> rdo self h = lift rd self h"
  shows "wf_obj self h \<Longrightarrow> obj_read_hash rdo self h = lift (read_hash rd) self h"
  unfolding obj_read_hash_def
  by (simp add: obj_read_int_lift case_lift sim)
     (auto simp: lift_def read_hash_def obj_read_hash_loop_lift [of self rdo rd, OF assms] sim
        split: sum.splits prod.splits)

lemma obj_read_ivar_lift:
  assumes "\<And>h. wf_obj self h \<Longrightarrow> rdo self h = lift rd self h"
  shows "wf_obj self h \<Longrightarrow> obj_read_ivar rdo self h = lift (read_ivar rd) self h"
  unfolding obj_read_ivar_def
  by (simp add: assms case_lift sim)
     (auto simp: lift_def read_ivar_def obj_read_int_lift
        obj_read_pairs_loop_lift [of self rdo rd, OF assms] sim split: sum.splits prod.splits)

lemma obj_read_object_lift:
  assumes "\<And>h. wf_obj self h \<Longrightarrow> rdo self h = lift rd self h"
  shows "wf_obj self h \<Longrightarrow> obj_read_object rdo self h = lift (read_object rd) self h"
  unfolding obj_read_object_def
  by (simp add: obj_read_class_symbol_lift case_lift sim)
     (auto simp: lift_def read_object_def obj_read_int_lift
        obj_read_pairs_loop_lift [of self rdo rd, OF assms] sim split: sum.splits prod.splits)

lemma obj_read_usr_marshal_lift:
  assumes "\<And>h. wf_obj self h \<Longrightarrow> rdo self h = lift rd self h"
  shows "wf_obj self h \<Longrightarrow> obj_read_usr_marshal rdo self h = lift (read_usr_marshal rd) self h"
  unfolding obj_read_usr_marshal_def
  by (simp add: obj_read_class_symbol_lift case_lift sim)
     (auto simp: lift_def read_usr_marshal_def assms sim split: sum.splits prod.splits)

lemma obj_read_link_lift: "wf_obj self h \<Longrightarrow> obj_read_link self h = lift read_link self h"
  unfolding obj_read_link_def
  by (simp add: obj_read_int_lift case_lift sim)
     (auto simp: lift_def read_link_def sim split: sum.splits prod.splits)

lemma obj_read_userdef_lift: "wf_obj self h \<Longrightarrow> obj_read_userdef self h = lift read_userdef self h"
  unfolding obj_read_userdef_def
  by (simp add: obj_read_class_symbol_lift case_lift sim)
     (auto simp: lift_def read_userdef_def obj_read_int_lift obj_read_bytes_lift sim
        split: sum.splits prod.splits)

lemma obj_read_extended_lift: "obj_read_extended self h = lift read_extended self h"
  by (simp add: obj_read_extended_def read_extended_def lift_def put_view)

lemma obj_read_bignum_lift: "wf_obj self h \<Longrightarrow> obj_read_bignum self h = lift read_bignum self h"
  unfolding obj_read_bignum_def
  by (simp add: obj_read_byte_lift case_lift sim)
     (auto simp: lift_def read_bignum_def obj_read_int_lift obj_read_bytes_lift sim
        split: sum.splits prod.splits)

lemma obj_read_string_lift: "wf_obj self h \<Longrightarrow> obj_read_string self h = lift read_string self h"
  unfolding obj_read_string_def
  by (simp add: obj_read_int_lift case_lift sim)
     (auto simp: lift_def read_string_def obj_read_bytes_lift sim split: sum.splits prod.splits)

lemma obj_as_val_lift: "obj_as_val f (lift g self h) = lift (\<lambda>st. as_val f (g st)) self h"
  by (simp add: obj_as_val_def as_val_def lift_def split: sum.splits prod.splits)

lemma obj_dispatch_lift:
  assumes "\<And>h. wf_obj self h \<Longrightarrow> rdo self h = lift rd self h" and "wf_obj self h"
  shows "obj_dispatch rdo tb t self h = lift (dispatch rd tb t) self h"
proof (cases t)
  case NONE
  then show ?thesis by (simp add: lift_def)
next
  case HASH
  then show ?thesis using obj_read_hash_lift [of self rdo rd h, OF assms] by (simp add: lift_def)
next
  case ARRAY
  then show ?thesis using obj_read_array_lift [of self rdo rd h, OF assms] by (simp add: lift_def)
next
  case SYMBOL
  then show ?thesis using assms(2) by (simp add: obj_read_symbol_lift lift_def obj_as_val_def as_val_def split: sum.splits prod.splits)
next
  case SYMBOL_LINK
  then show ?thesis using assms(2) by (simp add: obj_read_symbol_link_lift lift_def obj_as_val_def as_val_def split: sum.splits prod.splits)
next
  case IVARS
  then show ?thesis using obj_read_ivar_lift [of self rdo rd h, OF assms] by (simp add: lift_def)
next
  case STRING
  then show ?thesis using assms(2) by (simp add: obj_read_string_lift lift_def obj_as_val_def as_val_def split: sum.splits prod.splits)
next
  case INT_tag
  then show ?thesis using assms(2) by (simp add: obj_read_int_lift lift_def obj_as_val_def as_val_def split: sum.splits prod.splits)
next
  case BIGNUM
  then show ?thesis using assms(2) by (simp add: obj_read_bignum_lift lift_def obj_as_val_def as_val_def split: sum.splits prod.splits)
next
  case NIL
  then show ?thesis by (simp add: lift_def put_view)
next
  case TRUE
  then show ?thesis by (simp add: lift_def put_view)
next
  case FALSE
  then show ?thesis by (simp add: lift_def put_view)
next
  case USR_MARSHAL
  then show ?thesis using obj_read_usr_marshal_lift [of self rdo rd h, OF assms] by (simp add: lift_def)
next
  case EXTENDED
  then show ?thesis by (simp add: obj_read_extended_lift lift_def)
next
  case USERDEF
  then show ?thesis using assms(2) by (simp add: obj_read_userdef_lift lift_def)
next
  case LINK
  then show ?thesis using assms(2) by (simp add: obj_read_link_lift lift_def)
next
  case OBJECT
  then show ?thesis using obj_read_object_lift [of self rdo rd h, OF assms] by (simp add: lift_def)
qed

lemma obj_read_lift: "wf_obj self h \<Longrightarrow> obj_read depth self h = lift (read depth) self h"
proof (induction depth arbitrary: h)
  case 0
  show ?case by (simp add: lift_def)
next
  case (Suc depth)
  have d: "obj_dispatch (obj_read depth) tb t self h' = lift (dispatch (read depth) tb t) self h'"
    if "wf_obj self h'" for tb t h'
    using Suc.IH that by (rule obj_dispatch_lift)
  show ?case using Suc.prems
    by (simp add: obj_read_byte_lift case_lift sim)
       (auto simp: lift_def d sim split: sum.splits prod.splits option.splits)
qed

lemma obj_load_impl_lift:
  "wf_obj self h \<Longrightarrow> obj_load_impl depth self h = lift (load_impl depth) self h"
  unfolding obj_load_impl_def
  by (simp add: obj_read_byte_lift case_lift sim)
     (auto simp: lift_def load_impl_def obj_read_byte_lift obj_read_lift sim
        split: sum.splits prod.splits)

lemma new_Marshal_wf:
  assumes "new_Marshal d h = (self, h0)"
  shows "wf_obj self h0" and "view self h0 = Marshal_init d"
    and "self = length (instances h)"
    and "instances h0 = instances h @ [\<lparr>inst_data = d, inst_position = 0, inst_symbols = length (lists h)\<rparr>]"
    and "lists h0 = lists h @ [[]]"
  using assms
  by (auto simp: new_Marshal_def wf_obj_def view_def symbols_of_def Marshal_init_def)

lemma obj_load_eq:
  "obj_load depth d h =
     (case load_impl depth (Marshal_init d) of
        Inl e \<Rightarrow> Inl e
      | Inr (v, st') \<Rightarrow> Inr (v, put (length (instances h)) (snd (new_Marshal d h)) st'))"
proof -
  obtain self h0 where n: "new_Marshal d h = (self, h0)" by (cases "new_Marshal d h")
  note w = new_Marshal_wf [OF n]
  have s: "snd (new_Marshal d h) = h0" by (simp add: n)
  show ?thesis
    unfolding s
    using obj_load_impl_lift [OF w(1), of depth] w(2,3)
    by (simp add: obj_load_def n lift_def)
qed

subsection \<open>C8: calls do not share state\<close>

text \<open>
  C8. In any store, that is after any earlier calls, \<open>Marshal.load\<close> returns what the
  bytes alone determine; a call that returns leaves every object of the earlier calls as
  it was, and a second call on the same bytes in the store it leaves returns the same
  value. No symbol table reaches from one call into another.
\<close>

theorem C8_calls_share_no_state:
  "map_sum id fst (obj_load depth d h) = load depth d
   \<and> (\<forall>v h'. obj_load depth d h = Inr (v, h') \<longrightarrow>
         take (length (instances h)) (instances h') = instances h
         \<and> take (length (lists h)) (lists h') = lists h
         \<and> map_sum id fst (obj_load depth d h') = Inr v)"
proof -
  have r: "map_sum id fst (obj_load depth d g) = load depth d" for g
    by (simp add: obj_load_eq load_def split: sum.splits prod.splits)
  have f: "take (length (instances h)) (instances h') = instances h
           \<and> take (length (lists h)) (lists h') = lists h"
    if "obj_load depth d h = Inr (v, h')" for v h'
  proof -
    obtain self h0 where n: "new_Marshal d h = (self, h0)" by (cases "new_Marshal d h")
    note w = new_Marshal_wf [OF n]
    from that obtain st' where "h' = put (length (instances h)) h0 st'"
      by (auto simp: obj_load_eq n split: sum.splits prod.splits)
    then show ?thesis by (simp add: put_def w(4,5))
  qed
  have s: "map_sum id fst (obj_load depth d h') = Inr v"
    if "obj_load depth d h = Inr (v, h')" for v h'
    using r [of h'] r [of h] that by simp
  from r f s show ?thesis by blast
qed

text \<open>
  The theorem at a first call that records the symbol \<open>:a\<close>: the same call again gives
  the same value, and a symbol link 0 in a later call finds an empty table.
\<close>

theorem C8_calls_share_no_state_witness:
  "obj_load 1 [4, 8, 0x3A, 6, 0x61] \<lparr>instances = [], lists = []\<rparr>
     = Inr (PyStr [58, 97],
            \<lparr>instances = [\<lparr>inst_data = [4, 8, 0x3A, 6, 0x61], inst_position = 5, inst_symbols = 0\<rparr>],
             lists = [[[58, 97]]]\<rparr>)
   \<and> map_sum id fst
         (obj_load 1 [4, 8, 0x3A, 6, 0x61]
            \<lparr>instances = [\<lparr>inst_data = [4, 8, 0x3A, 6, 0x61], inst_position = 5, inst_symbols = 0\<rparr>],
             lists = [[[58, 97]]]\<rparr>)
       = Inr (PyStr [58, 97])
   \<and> map_sum id fst
         (obj_load 1 [4, 8, 0x3B, 0]
            \<lparr>instances = [\<lparr>inst_data = [4, 8, 0x3A, 6, 0x61], inst_position = 5, inst_symbols = 0\<rparr>],
             lists = [[[58, 97]]]\<rparr>)
       = load 1 [4, 8, 0x3B, 0]
   \<and> load 1 [4, 8, 0x3B, 0] = Inl (InvalidSymbolLink 0)"
proof -
  let ?h0 = "\<lparr>instances = [], lists = []\<rparr>"
  let ?h1 = "\<lparr>instances = [\<lparr>inst_data = [4, 8, 0x3A, 6, 0x61 :: byte], inst_position = 5, inst_symbols = 0\<rparr>],
             lists = [[[58, 97]]]\<rparr>"
  have a: "obj_load 1 [4, 8, 0x3A, 6, 0x61] ?h0 = Inr (PyStr [58, 97], ?h1)" by code_simp
  note T = C8_calls_share_no_state [of 1 "[4, 8, 0x3A, 6, 0x61]" ?h0, THEN conjunct2,
             THEN spec, THEN spec, THEN mp, OF a]
  note b = T [THEN conjunct2, THEN conjunct2]
  note c = C8_calls_share_no_state [of 1 "[4, 8, 0x3B, 0]" ?h1, THEN conjunct1]
  have d: "load 1 [4, 8, 0x3B, 0] = Inl (InvalidSymbolLink 0)" by code_simp
  show ?thesis by (rule conjI [OF a conjI [OF b conjI [OF c d]]])
qed

end
